theory Spec2Isabelle
  imports Complex_Main "HOL-Library.AList" "HOL-Library.Multiset" "HOL-Library.Word"
begin

unbundle bit_operations_syntax

section \<open>Rendering and reading integers\<close>

text \<open>
  Go's \<^verbatim>\<open>fmt.Sprintf("%d", n)\<close>: the decimal digits of \<open>n\<close>, most significant first, with a
  leading minus sign for a negative number.  \<open>atoi\<close> reads such a string back; it is the
  "integer value of a bucket label" of the specification and is used in statements only.
\<close>

definition digit_char :: "nat \<Rightarrow> char" where
  "digit_char d = ''0123456789'' ! d"

fun fmt_nat :: "nat \<Rightarrow> string" where
  "fmt_nat n = (if n < 10 then [digit_char n] else fmt_nat (n div 10) @ [digit_char (n mod 10)])"

declare fmt_nat.simps [simp del]

definition fmt_d :: "int \<Rightarrow> string" where
  "fmt_d i = (if i < 0 then CHR ''-'' # fmt_nat (nat (- i)) else fmt_nat (nat i))"

definition digit_val :: "char \<Rightarrow> nat" where
  "digit_val c = of_char c - 48"

definition atoi_nat :: "string \<Rightarrow> nat" where
  "atoi_nat s = foldl (\<lambda>a c. 10 * a + digit_val c) 0 s"

definition atoi :: "string \<Rightarrow> int" where
  "atoi s = (case s of
               [] \<Rightarrow> 0
             | c # cs \<Rightarrow> if c = CHR ''-'' then - int (atoi_nat cs) else int (atoi_nat s))"

section \<open>The discretised state (markov.go, first variant)\<close>

text \<open>
  \<^verbatim>\<open>QuantizeSize(size int64) string\<close>.  The argument is clamped to 0 first, so Go's truncating
  division coincides with \<open>div\<close>, and \<open>size / k * k\<close> never exceeds \<open>size\<close>: no 64-bit
  overflow can occur, and the integers are modelled by \<open>int\<close>.
\<close>

definition QuantizeSize :: "int \<Rightarrow> string" where
  "QuantizeSize size0 =
     (let sz = (if size0 < 0 then 0 else size0) in
      if sz < 100 then fmt_d (sz div 10 * 10)
      else if sz < 1000 then fmt_d (sz div 100 * 100)
      else if sz < 10000 then fmt_d (sz div 1000 * 1000)
      else fmt_d (sz div 10000 * 10000))"

definition quantizeSize :: "int \<Rightarrow> string" where
  "quantizeSize sz = QuantizeSize sz"

text \<open>Rounding down to a multiple of \<open>k\<close>: the arithmetic of one branch of \<^verbatim>\<open>QuantizeSize\<close>,
  named for the proofs.\<close>

definition round_down :: "int \<Rightarrow> int \<Rightarrow> int" where
  "round_down k z = z div k * k"

text \<open>
  \<^verbatim>\<open>type State struct { CodeClass string; SizeBucket string; Depth int }\<close> and its
  \<^verbatim>\<open>Hash()\<close>, \<^verbatim>\<open>fmt.Sprintf("%s_%s_%d", ...)\<close>.
\<close>

record State =
  CodeClass :: string
  SizeBucket :: string
  Depth :: int

definition Hash :: "State \<Rightarrow> string" where
  "Hash s = CodeClass s @ ''_'' @ SizeBucket s @ ''_'' @ fmt_d (Depth s)"

text \<open>
  \<^verbatim>\<open>GetSizeHash(data []byte) string\<close>: the 64-bit FNV-1a hash of the body, rendered by
  \<^verbatim>\<open>%x\<close> (lower-case hexadecimal, no leading zeros); \<open>''0''\<close> for an empty body.
\<close>

type_synonym byte = "8 word"

definition hex_char :: "nat \<Rightarrow> char" where
  "hex_char d = ''0123456789abcdef'' ! d"

fun fmt_x :: "nat \<Rightarrow> string" where
  "fmt_x n = (if n < 16 then [hex_char n] else fmt_x (n div 16) @ [hex_char (n mod 16)])"

declare fmt_x.simps [simp del]

definition fnv64a :: "byte list \<Rightarrow> 64 word" where
  "fnv64a data = foldl (\<lambda>h b. (h XOR ucast b) * 1099511628211) 14695981039346656037 data"

definition GetSizeHash :: "byte list \<Rightarrow> string" where
  "GetSizeHash data = (if length data = 0 then ''0'' else fmt_x (unat (fnv64a data)))"

section \<open>Classification and reward (inputprovider.go)\<close>

text \<open>
  The fields of \<^verbatim>\<open>Response\<close> that classification and reward read.  Rewards are \<^verbatim>\<open>float64\<close>
  sums of the decimal constants 1.0, 0.5, 0.8 and 0.6; they are modelled as exact reals.
\<close>

record Response =
  StatusCode :: int
  Data :: "byte list"
  ContentLength :: int

definition GetStateFromResponseFromResponseStruct :: "Response \<Rightarrow> int \<Rightarrow> State" where
  "GetStateFromResponseFromResponseStruct resp depth =
     (let codeClass =
            (if StatusCode resp \<ge> 200 \<and> StatusCode resp < 300 then ''2xx''
             else if StatusCode resp \<ge> 300 \<and> StatusCode resp < 400 then ''3xx''
             else if StatusCode resp \<ge> 400 \<and> StatusCode resp < 500 then ''4xx''
             else if StatusCode resp \<ge> 500 \<and> StatusCode resp < 600 then ''5xx''
             else ''unknown'');
          sizeBucket = quantizeSize (ContentLength resp)
      in \<lparr>CodeClass = codeClass, SizeBucket = sizeBucket, Depth = depth\<rparr>)"

text \<open>
  \<^verbatim>\<open>CalculateRewardFromResponseStruct\<close>, statement by statement: the three \<open>reward\<^sub>i\<close> are the
  value of the variable \<^verbatim>\<open>reward\<close> after the first \<^verbatim>\<open>if\<close>, after the \<^verbatim>\<open>if/else\<close> on the
  4xx range, and after the final \<^verbatim>\<open>switch\<close>.
\<close>

definition CalculateRewardFromResponseStruct :: "Response \<Rightarrow> State \<Rightarrow> string \<Rightarrow> real" where
  "CalculateRewardFromResponseStruct resp baselineState baselineSizeHash =
     (let reward0 = 0;
          reward1 =
            (if StatusCode resp < 400 \<or> StatusCode resp \<ge> 500 \<or>
                StatusCode resp = 401 \<or> StatusCode resp = 403
             then reward0 + 1 else reward0);
          reward2 =
            (if StatusCode resp \<ge> 400 \<and> StatusCode resp < 500 then
               (let currentState = GetStateFromResponseFromResponseStruct resp (Depth baselineState) in
                if Hash currentState \<noteq> Hash baselineState then
                  (let currentSizeHash = GetSizeHash (Data resp) in
                   if currentSizeHash \<noteq> baselineSizeHash then reward1 + 1 / 2 else reward1)
                else reward1)
             else reward1 + 1);
          reward3 =
            (if StatusCode resp \<ge> 200 \<and> StatusCode resp < 300 then reward2 + 1
             else if StatusCode resp = 401 \<or> StatusCode resp = 403 then reward2 + 8 / 10
             else if StatusCode resp = 404 then reward2
             else if StatusCode resp \<ge> 500 \<and> StatusCode resp < 600 then reward2 + 6 / 10
             else reward2)
      in reward3)"

text \<open>
  The condition under which the 4xx branch adds its 0.5: the state hash differs from the
  baseline's and then the content digest differs from the baseline digest.
\<close>

definition differs_from_baseline :: "Response \<Rightarrow> State \<Rightarrow> string \<Rightarrow> bool" where
  "differs_from_baseline resp baselineState baselineSizeHash =
     (Hash (GetStateFromResponseFromResponseStruct resp (Depth baselineState)) \<noteq> Hash baselineState \<and>
      GetSizeHash (Data resp) \<noteq> baselineSizeHash)"

text \<open>Concrete inputs used to evaluate the functions: a 4xx baseline of bucket 100 at depth 1.\<close>

definition baseline0 :: State where
  "baseline0 = \<lparr>CodeClass = ''4xx'', SizeBucket = ''100'', Depth = 1\<rparr>"

definition response0 :: "int \<Rightarrow> int \<Rightarrow> Response" where
  "response0 status len = \<lparr>StatusCode = status, Data = [97], ContentLength = len\<rparr>"

section \<open>The Q-learning transition model (markov.go, first variant)\<close>

text \<open>
  \<^verbatim>\<open>Transition\<close> and \<^verbatim>\<open>MarkovChain\<close>.  An \<^verbatim>\<open>Action\<close> is its \<^verbatim>\<open>Token\<close>.  The outer maps are
  partial functions; the rows of the Q-table are association lists, because the code
  iterates over them.  The order of a row is the model's own: Go leaves the iteration order
  of a map unspecified, and where that order can be observed
  (\<^verbatim>\<open>GetBestActionsForState\<close>) it is an explicit argument.  Counters are Go \<^verbatim>\<open>int\<close>s that
  are only ever incremented from 0; they are modelled by \<open>nat\<close>.  Q-values and the
  parameters are \<^verbatim>\<open>float64\<close>, modelled as exact reals.
\<close>

record Transition =
  FromState :: State
  Action :: string
  ToState :: State
  Reward :: real

record MarkovChain =
  QTable :: "string \<rightharpoonup> (string \<times> real) list"
  TransitionCounts :: "string \<rightharpoonup> (string \<rightharpoonup> (string \<rightharpoonup> nat))"
  ActionCounts :: "string \<rightharpoonup> (string \<rightharpoonup> nat)"
  StateCounts :: "string \<rightharpoonup> nat"
  AvailableActions :: "string \<rightharpoonup> string list"
  Alpha :: real
  Gamma :: real
  Epsilon :: real
  Threshold :: real

definition NewMarkovChain :: MarkovChain where
  "NewMarkovChain =
     \<lparr>QTable = Map.empty, TransitionCounts = Map.empty, ActionCounts = Map.empty,
      StateCounts = Map.empty, AvailableActions = Map.empty,
      Alpha = 1 / 10, Gamma = 9 / 10, Epsilon = 1 / 10, Threshold = 1 / 100\<rparr>"

text \<open>
  Reading a missing key of a Go map gives the zero value: 0 for a counter or a Q-value, the
  nil map (which reads as empty) for a row, the nil slice for a list.  \<open>incr\<close> is
  \<^verbatim>\<open>m[k]++\<close>.
\<close>

definition row :: "('k \<rightharpoonup> ('a \<rightharpoonup> 'b)) \<Rightarrow> 'k \<Rightarrow> ('a \<rightharpoonup> 'b)" where
  "row m k = (case m k of None \<Rightarrow> Map.empty | Some r \<Rightarrow> r)"

definition row_list :: "('k \<rightharpoonup> 'a list) \<Rightarrow> 'k \<Rightarrow> 'a list" where
  "row_list m k = (case m k of None \<Rightarrow> [] | Some r \<Rightarrow> r)"

definition incr :: "('k \<rightharpoonup> nat) \<Rightarrow> 'k \<Rightarrow> ('k \<rightharpoonup> nat)" where
  "incr m k = m(k \<mapsto> (case m k of None \<Rightarrow> 0 | Some c \<Rightarrow> c) + 1)"

text \<open>The loop \<^verbatim>\<open>for _, q := range nextQs { if q > maxNextQ { maxNextQ = q } }\<close> from 0.0.\<close>

definition max_q :: "(string \<times> real) list \<Rightarrow> real" where
  "max_q nextQs = foldl (\<lambda>maxNextQ (a, q). if q > maxNextQ then q else maxNextQ) 0 nextQs"

definition UpdateTransition :: "MarkovChain \<Rightarrow> Transition \<Rightarrow> MarkovChain" where
  "UpdateTransition mc transition =
     (let fromStateKey = Hash (FromState transition);
          actionKey = Action transition;
          toStateKey = Hash (ToState transition);
          qTable1 = (case QTable mc fromStateKey of
                       None \<Rightarrow> (QTable mc)(fromStateKey \<mapsto> [])
                     | Some _ \<Rightarrow> QTable mc);
          transitionCounts1 = (case TransitionCounts mc fromStateKey of
                       None \<Rightarrow> (TransitionCounts mc)(fromStateKey \<mapsto> Map.empty)
                     | Some _ \<Rightarrow> TransitionCounts mc);
          actionCounts1 = (case ActionCounts mc fromStateKey of
                       None \<Rightarrow> (ActionCounts mc)(fromStateKey \<mapsto> Map.empty)
                     | Some _ \<Rightarrow> ActionCounts mc);
          actionCounts2 = actionCounts1(fromStateKey \<mapsto> incr (row actionCounts1 fromStateKey) actionKey);
          fromCounts = (case row transitionCounts1 fromStateKey actionKey of
                       None \<Rightarrow> (row transitionCounts1 fromStateKey)(actionKey \<mapsto> Map.empty)
                     | Some _ \<Rightarrow> row transitionCounts1 fromStateKey);
          transitionCounts2 = transitionCounts1(fromStateKey \<mapsto>
                       fromCounts(actionKey \<mapsto> incr (row fromCounts actionKey) toStateKey));
          stateCounts2 = incr (StateCounts mc) fromStateKey;
          currentQ = (case map_of (row_list qTable1 fromStateKey) actionKey of
                       None \<Rightarrow> 0
                     | Some q \<Rightarrow> q);
          maxNextQ = (case qTable1 toStateKey of
                       None \<Rightarrow> 0
                     | Some nextQs \<Rightarrow> if length nextQs > 0 then max_q nextQs else 0);
          newQ = currentQ + Alpha mc * (Reward transition + Gamma mc * maxNextQ - currentQ);
          qTable2 = qTable1(fromStateKey \<mapsto>
                       AList.update actionKey newQ (row_list qTable1 fromStateKey));
          found = (actionKey \<in> set (row_list (AvailableActions mc) fromStateKey));
          availableActions2 =
            (if \<not> found
             then (AvailableActions mc)(fromStateKey \<mapsto>
                     row_list (AvailableActions mc) fromStateKey @ [actionKey])
             else AvailableActions mc)
      in mc\<lparr>QTable := qTable2, TransitionCounts := transitionCounts2,
            ActionCounts := actionCounts2, StateCounts := stateCounts2,
            AvailableActions := availableActions2\<rparr>)"

definition GetExpectedReward :: "MarkovChain \<Rightarrow> State \<Rightarrow> string \<Rightarrow> real" where
  "GetExpectedReward mc state action =
     (case QTable mc (Hash state) of
        None \<Rightarrow> 0
      | Some qValues \<Rightarrow> (case map_of qValues action of None \<Rightarrow> 0 | Some qValue \<Rightarrow> qValue))"

text \<open>
  A chain as the program can build one: \<^verbatim>\<open>NewMarkovChain()\<close> followed by calls of
  \<^verbatim>\<open>UpdateTransition\<close>.  \<open>observed\<close>: the state and the action have been updated together
  (the state compared field by field); \<open>observed_key\<close>: a state with the same key and the
  action have been updated together; \<open>no_qvalues\<close>: the state has no Q-value at all.

  The key \<^verbatim>\<open>Hash()\<close> joins the fields with \<open>_\<close>.  A state is \<open>well_formed\<close> when its
  \<^verbatim>\<open>CodeClass\<close> does not contain that separator, as is the case for the five classes the
  classifier produces; on such states the key determines the state.
\<close>

definition run_transitions :: "Transition list \<Rightarrow> MarkovChain" where
  "run_transitions trs = foldl UpdateTransition NewMarkovChain trs"

definition observed :: "Transition list \<Rightarrow> State \<Rightarrow> string \<Rightarrow> bool" where
  "observed trs s a = list_ex (\<lambda>tr. FromState tr = s \<and> Action tr = a) trs"

definition observed_key :: "Transition list \<Rightarrow> State \<Rightarrow> string \<Rightarrow> bool" where
  "observed_key trs s a = list_ex (\<lambda>tr. Hash (FromState tr) = Hash s \<and> Action tr = a) trs"

definition well_formed :: "State \<Rightarrow> bool" where
  "well_formed s = (CHR ''_'' \<notin> set (CodeClass s))"

definition well_formed_from :: "Transition list \<Rightarrow> bool" where
  "well_formed_from trs = list_all (\<lambda>tr. well_formed (FromState tr)) trs"

definition no_qvalues :: "MarkovChain \<Rightarrow> State \<Rightarrow> bool" where
  "no_qvalues mc s = (row_list (QTable mc) (Hash s) = [])"

text \<open>The states and the action of \<^verbatim>\<open>TestMarkovChain\<close> (markov_test.go).\<close>

definition state1 :: State where
  "state1 = \<lparr>CodeClass = ''4xx'', SizeBucket = ''139'', Depth = 1\<rparr>"

definition state2 :: State where
  "state2 = \<lparr>CodeClass = ''2xx'', SizeBucket = ''2000'', Depth = 1\<rparr>"

definition transition0 :: "string \<Rightarrow> real \<Rightarrow> Transition" where
  "transition0 a r = \<lparr>FromState = state1, Action = a, ToState = state2, Reward = r\<rparr>"

subsection \<open>Ranking the candidates\<close>

text \<open>
  A run-time panic of the Go code (a slice bound or a capacity out of range, an index out of
  range) is the error value \<open>Panic\<close>.
\<close>

datatype error = Panic

fun containsString :: "string list \<Rightarrow> string \<Rightarrow> bool" where
  "containsString [] item = False"
| "containsString (s # strs) item = (if s = item then True else containsString strs item)"

text \<open>
  \<^verbatim>\<open>shuffleStrings\<close>: for \<open>i\<close> from \<open>len - 1\<close> down to 1, swap positions \<open>i\<close> and
  \<open>(i * 31) % len\<close>.  There is no random source; the permutation depends on the length
  only.  (The index goes through \<^verbatim>\<open>float64\<close> and back, which is exact below \<open>2\<^sup>5\<^sup>3\<close>.)
\<close>

definition swap_at :: "nat \<Rightarrow> nat \<Rightarrow> 'a list \<Rightarrow> 'a list" where
  "swap_at i j strs = strs[i := strs ! j, j := strs ! i]"

fun shuffle_from :: "nat \<Rightarrow> string list \<Rightarrow> string list" where
  "shuffle_from 0 strs = strs"
| "shuffle_from (Suc i) strs =
     shuffle_from i (swap_at (Suc i) ((Suc i * 31) mod length strs) strs)"

definition shuffleStrings :: "string list \<Rightarrow> string list" where
  "shuffleStrings strs = shuffle_from (length strs - 1) strs"

text \<open>
  \<^verbatim>\<open>getRandomSubset\<close>.  With \<open>n < 0\<close> (and so \<open>n < len(slice)\<close>) the slice expression
  \<^verbatim>\<open>result[:n]\<close> panics.
\<close>

definition getRandomSubset :: "string list \<Rightarrow> int \<Rightarrow> error + string list" where
  "getRandomSubset strs n =
     (if n \<ge> int (length strs) then Inr strs
      else let result = shuffleStrings strs
           in if n < 0 then Inl Panic else Inr (take (nat n) result))"

text \<open>
  \<^verbatim>\<open>sort.Slice\<close> with the comparison \<^verbatim>\<open>value[i] > value[j]\<close>.  On up to 12 elements Go runs an
  insertion sort: each element in turn moves left while it is greater than its left
  neighbour, which puts it in front of the first smaller element of the sorted prefix.
  \<^verbatim>\<open>sort.Slice\<close> promises no order among equal elements.
\<close>

fun insert_desc :: "'a \<times> 'b::linorder \<Rightarrow> ('a \<times> 'b) list \<Rightarrow> ('a \<times> 'b) list" where
  "insert_desc x [] = [x]"
| "insert_desc x (y # ys) = (if snd x > snd y then x # y # ys else y # insert_desc x ys)"

definition sort_slice :: "('a \<times> 'b::linorder) list \<Rightarrow> ('a \<times> 'b) list" where
  "sort_slice xs = foldl (\<lambda>sorted x. insert_desc x sorted) [] xs"

text \<open>
  \<^verbatim>\<open>make([]string, 0, n)\<close> allocates room for \<open>n\<close> string headers at once.  The Go run time
  panics (\<^verbatim>\<open>makeslice: cap out of range\<close>) when \<open>n\<close> is negative and when \<open>n\<close> headers exceed what
  it can allocate.  That limit belongs to the platform and not to this program, so it is the
  parameter \<open>maxCap\<close>: the largest capacity for which the allocation returns.  On linux/amd64
  the run time refuses more than \<open>2\<^sup>4\<^sup>8\<close> bytes, and a string header has 16 bytes: \<open>maxCap\<close> is at
  most \<open>2\<^sup>4\<^sup>4\<close> there (\<open>maxCap_amd64\<close>), and less on a machine with less memory.
\<close>

definition make_strings :: "int \<Rightarrow> int \<Rightarrow> error + string list" where
  "make_strings maxCap n = (if n < 0 \<or> n > maxCap then Inl Panic else Inr [])"

definition maxCap_amd64 :: int where
  "maxCap_amd64 = 2 ^ 44"

text \<open>
  \<^verbatim>\<open>GetBestActionsForState\<close>.  The argument \<open>iteration\<close> is the row \<^verbatim>\<open>mc.QTable[stateKey]\<close> in
  the order in which \<^verbatim>\<open>range\<close> yields its entries, which Go does not specify:
  any permutation of the row is a possible order (\<open>iteration_of\<close>).  The result slice is
  allocated with capacity \<open>n\<close> after the sort, on the ranked branch only.
\<close>

definition iteration_of :: "MarkovChain \<Rightarrow> State \<Rightarrow> (string \<times> real) list \<Rightarrow> bool" where
  "iteration_of mc state iteration = (mset iteration = mset (row_list (QTable mc) (Hash state)))"

definition GetBestActionsForState ::
  "int \<Rightarrow> MarkovChain \<Rightarrow> State \<Rightarrow> string list \<Rightarrow> int \<Rightarrow> (string \<times> real) list \<Rightarrow> error + string list" where
  "GetBestActionsForState maxCap mc state wordlist n iteration =
     (let stateKey = Hash state in
      case QTable mc stateKey of
        None \<Rightarrow>
          (case StateCounts mc stateKey of
             Some _ \<Rightarrow> getRandomSubset wordlist n
           | None \<Rightarrow> getRandomSubset wordlist n)
      | Some _ \<Rightarrow>
          (let actionValues = filter (\<lambda>(action, qValue). containsString wordlist action) iteration in
           if length actionValues = 0 then getRandomSubset wordlist n
           else
             let sorted = sort_slice actionValues in
             case make_strings maxCap n of
               Inl e \<Rightarrow> Inl e
             | Inr result0 \<Rightarrow>
                 (let result = result0 @ map fst (take (nat n) sorted) in
                  if int (length result) < n then
                    (let remaining = filter (\<lambda>word. \<not> containsString result word) wordlist;
                         shuffled = shuffleStrings remaining
                     in Inr (result @ take (nat n - length result) shuffled))
                  else Inr result)))"

text \<open>
  The ranked prefix in the words of the specification: the known actions of the state that
  are among the candidates, in some order that is descending by Q-value.
\<close>

definition ranking_of :: "MarkovChain \<Rightarrow> State \<Rightarrow> string list \<Rightarrow> (string \<times> real) list \<Rightarrow> bool" where
  "ranking_of mc state wordlist ranked =
     (mset ranked = mset (filter (\<lambda>(action, qValue). action \<in> set wordlist)
                            (row_list (QTable mc) (Hash state))) \<and>
      sorted_wrt (\<lambda>x y. snd x \<ge> snd y) ranked)"

text \<open>Two updates from \<open>state1\<close> with equal rewards: the actions \<open>a\<close> then \<open>b\<close>.\<close>

definition chain_ab :: MarkovChain where
  "chain_ab = run_transitions [transition0 ''a'' 1, transition0 ''b'' 1]"

section \<open>The raw-state Markov chain (markov.go, second variant)\<close>

text \<open>
  The second \<^verbatim>\<open>State\<close> and \<^verbatim>\<open>MarkovChain\<close> of markov.go, under the names their copy in package
  ffuf gives them (\<^verbatim>\<open>mState\<close>, \<^verbatim>\<open>mMarkovChain\<close>); fields and methods that would clash with the
  first variant carry the same prefix.  \<^verbatim>\<open>Duration\<close> is a \<^verbatim>\<open>time.Duration\<close>, a number of
  nanoseconds; \<^verbatim>\<open>Milliseconds()\<close> divides by \<open>10\<^sup>6\<close>, truncating towards zero.  The key of a
  state is \<^verbatim>\<open>fmt.Sprintf("%d_%d_%d_%d_%d_%t", ...)\<close>.
\<close>

record mState =
  mStatusCode :: int
  mContentLength :: int
  mContentWords :: int
  mContentLines :: int
  mDuration :: int
  IsMatch :: bool

definition Milliseconds :: "int \<Rightarrow> int" where
  "Milliseconds d = (if d < 0 then - ((- d) div 1000000) else d div 1000000)"

definition fmt_t :: "bool \<Rightarrow> string" where
  "fmt_t b = (if b then ''true'' else ''false'')"

definition State_String :: "mState \<Rightarrow> string" where
  "State_String s =
     fmt_d (mStatusCode s) @ ''_'' @ fmt_d (mContentLength s) @ ''_'' @
     fmt_d (mContentWords s) @ ''_'' @ fmt_d (mContentLines s) @ ''_'' @
     fmt_d (Milliseconds (mDuration s)) @ ''_'' @ fmt_t (IsMatch s)"

text \<open>
  The rows of \<^verbatim>\<open>StateCounts\<close> are association lists, since \<^verbatim>\<open>updateProbabilities\<close> iterates
  over them (a sum and one assignment per key, so the order is immaterial).  Probabilities
  are \<^verbatim>\<open>float64\<close> quotients of two counts, modelled as exact reals.  The random source
  \<^verbatim>\<open>rand\<close> is the sequence of its future \<^verbatim>\<open>Float64()\<close> results and a position in it.
\<close>

record mMarkovChain =
  Transitions :: "string \<rightharpoonup> (string \<rightharpoonup> real)"
  mStateCounts :: "string \<rightharpoonup> (string \<times> nat) list"
  CurrentState :: mState
  History :: "mState list"
  rand_seq :: "nat \<Rightarrow> real"
  rand_pos :: nat

definition zero_mState :: mState where
  "zero_mState = \<lparr>mStatusCode = 0, mContentLength = 0, mContentWords = 0, mContentLines = 0,
                   mDuration = 0, IsMatch = False\<rparr>"

definition newMarkovChain :: "(nat \<Rightarrow> real) \<Rightarrow> mMarkovChain" where
  "newMarkovChain seed =
     \<lparr>Transitions = Map.empty, mStateCounts = Map.empty, CurrentState = zero_mState,
      History = [], rand_seq = seed, rand_pos = 0\<rparr>"

text \<open>Two random sources for concrete runs: one that always yields 0, one that always yields 1/2.\<close>

definition seed0 :: "nat \<Rightarrow> real" where
  "seed0 i = 0"

definition seed_half :: "nat \<Rightarrow> real" where
  "seed_half i = 1 / 2"

definition Float64 :: "mMarkovChain \<Rightarrow> real \<times> mMarkovChain" where
  "Float64 mc = (rand_seq mc (rand_pos mc), mc\<lparr>rand_pos := rand_pos mc + 1\<rparr>)"

text \<open>\<^verbatim>\<open>m[k]++\<close> on a row kept as an association list.\<close>

definition incr_list :: "('k \<times> nat) list \<Rightarrow> 'k \<Rightarrow> ('k \<times> nat) list" where
  "incr_list m k = AList.update k ((case map_of m k of None \<Rightarrow> 0 | Some c \<Rightarrow> c) + 1) m"

definition updateProbabilities :: "mMarkovChain \<Rightarrow> string \<Rightarrow> mMarkovChain" where
  "updateProbabilities mc currentState =
     (let counts = row_list (mStateCounts mc) currentState;
          total = foldl (\<lambda>total (nextState, count). total + count) 0 counts
      in if total = 0 then mc
         else
           let transitions1 = (case Transitions mc currentState of
                                 None \<Rightarrow> (Transitions mc)(currentState \<mapsto> Map.empty)
                               | Some _ \<Rightarrow> Transitions mc);
               probabilities =
                 foldl (\<lambda>r (nextState, count). r(nextState \<mapsto> real count / real total))
                   (row transitions1 currentState) counts
           in mc\<lparr>Transitions := transitions1(currentState \<mapsto> probabilities)\<rparr>)"

definition mUpdateTransition :: "mMarkovChain \<Rightarrow> mState \<Rightarrow> mState \<Rightarrow> mMarkovChain" where
  "mUpdateTransition mc currentState nextState =
     (let currentStr = State_String currentState;
          nextStr = State_String nextState;
          stateCounts1 = (case mStateCounts mc currentStr of
                            None \<Rightarrow> (mStateCounts mc)(currentStr \<mapsto> [])
                          | Some _ \<Rightarrow> mStateCounts mc);
          stateCounts2 = stateCounts1(currentStr \<mapsto> incr_list (row_list stateCounts1 currentStr) nextStr)
      in updateProbabilities (mc\<lparr>mStateCounts := stateCounts2\<rparr>) currentStr)"

definition UpdateChain :: "mMarkovChain \<Rightarrow> mState \<Rightarrow> mMarkovChain" where
  "UpdateChain mc newState =
     (let mc1 = (if length (History mc) > 0
                 then (let prevState = last (History mc) in mUpdateTransition mc prevState newState)
                 else mc)
      in mc1\<lparr>CurrentState := newState, History := History mc1 @ [newState]\<rparr>)"

definition GetTransitionProbability :: "mMarkovChain \<Rightarrow> mState \<Rightarrow> mState \<Rightarrow> real" where
  "GetTransitionProbability mc fromState toState =
     (let fromStr = State_String fromState; toStr = State_String toState in
      case Transitions mc fromStr of
        None \<Rightarrow> 0
      | Some transitions \<Rightarrow> (case transitions toStr of None \<Rightarrow> 0 | Some prob \<Rightarrow> prob))"

text \<open>
  The calls a client can make on a chain, the chain they lead to from \<^verbatim>\<open>NewMarkovChain()\<close>,
  and the log of the transitions they record: a call of \<^verbatim>\<open>UpdateTransition\<close> records its two
  arguments, a call of \<^verbatim>\<open>UpdateChain\<close> records the step from the last state of the history,
  when there is one.
\<close>

datatype chain_op = OpUpdateChain mState | OpUpdateTransition mState mState

fun apply_chain_op :: "mMarkovChain \<Rightarrow> chain_op \<Rightarrow> mMarkovChain" where
  "apply_chain_op mc (OpUpdateChain s) = UpdateChain mc s"
| "apply_chain_op mc (OpUpdateTransition s t) = mUpdateTransition mc s t"

definition run_chain :: "(nat \<Rightarrow> real) \<Rightarrow> chain_op list \<Rightarrow> mMarkovChain" where
  "run_chain seed ops = foldl apply_chain_op (newMarkovChain seed) ops"

fun transition_log :: "mState list \<Rightarrow> chain_op list \<Rightarrow> (mState \<times> mState) list" where
  "transition_log h [] = []"
| "transition_log h (OpUpdateChain s # ops) =
     (if h = [] then [] else [(last h, s)]) @ transition_log (h @ [s]) ops"
| "transition_log h (OpUpdateTransition s t # ops) = (s, t) # transition_log h ops"

text \<open>
  Counting the log: by state (two states are the same when all six fields agree) and by
  key (two states are the same when \<^verbatim>\<open>String()\<close> renders them alike).
\<close>

definition count_pair :: "(mState \<times> mState) list \<Rightarrow> mState \<Rightarrow> mState \<Rightarrow> nat" where
  "count_pair lg s t = length (filter (\<lambda>(a, b). a = s \<and> b = t) lg)"

definition count_from :: "(mState \<times> mState) list \<Rightarrow> mState \<Rightarrow> nat" where
  "count_from lg s = length (filter (\<lambda>(a, b). a = s) lg)"

definition count_pair_key :: "(mState \<times> mState) list \<Rightarrow> string \<Rightarrow> string \<Rightarrow> nat" where
  "count_pair_key lg k1 k2 =
     length (filter (\<lambda>(a, b). State_String a = k1 \<and> State_String b = k2) lg)"

definition count_from_key :: "(mState \<times> mState) list \<Rightarrow> string \<Rightarrow> nat" where
  "count_from_key lg k1 = length (filter (\<lambda>(a, b). State_String a = k1) lg)"

text \<open>
  What the tables of a chain say: the count stored for a pair of keys, and the total of a
  row.
\<close>

definition cnt :: "mMarkovChain \<Rightarrow> string \<Rightarrow> string \<Rightarrow> nat" where
  "cnt mc k1 k2 = (case map_of (row_list (mStateCounts mc) k1) k2 of None \<Rightarrow> 0 | Some c \<Rightarrow> c)"

definition tot :: "mMarkovChain \<Rightarrow> string \<Rightarrow> nat" where
  "tot mc k1 = sum_list (map snd (row_list (mStateCounts mc) k1))"

definition probabilities_of :: "(string \<times> nat) list \<Rightarrow> (string \<rightharpoonup> real)" where
  "probabilities_of counts =
     (\<lambda>k2. map_option (\<lambda>c. real c / real (sum_list (map snd counts))) (map_of counts k2))"

definition tables_ok :: "mMarkovChain \<Rightarrow> bool" where
  "tables_ok mc =
     (\<forall>k. distinct (map fst (row_list (mStateCounts mc) k)) \<and>
          Transitions mc k =
            (if row_list (mStateCounts mc) k = [] then None
             else Some (probabilities_of (row_list (mStateCounts mc) k))))"

text \<open>
  Concrete responses: two 404 responses that differ only in their duration, by less than a
  millisecond (1.2 ms and 1.7 ms), and a 200 response that is a match.
\<close>

definition miss_a :: mState where
  "miss_a = \<lparr>mStatusCode = 404, mContentLength = 139, mContentWords = 10, mContentLines = 5,
             mDuration = 1200000, IsMatch = False\<rparr>"

definition miss_b :: mState where
  "miss_b = \<lparr>mStatusCode = 404, mContentLength = 139, mContentWords = 10, mContentLines = 5,
             mDuration = 1700000, IsMatch = False\<rparr>"

definition hit :: mState where
  "hit = \<lparr>mStatusCode = 200, mContentLength = 2000, mContentWords = 50, mContentLines = 20,
          mDuration = 3000000, IsMatch = True\<rparr>"

definition ops0 :: "chain_op list" where
  "ops0 = [OpUpdateChain miss_a, OpUpdateChain hit, OpUpdateChain miss_b, OpUpdateChain miss_a]"

section \<open>The feedback controller (feedback.go)\<close>

text \<open>
  The \<^verbatim>\<open>Response\<close> of feedback.go (\<open>FResponse\<close> here, its fields prefixed) and the
  \<^verbatim>\<open>FeedbackController\<close>.  An input is a Go map \<^verbatim>\<open>map[string][]byte\<close>; the controller only
  stores inputs, hands them back and tests them against \<^verbatim>\<open>nil\<close>, so an input is a value of
  any type \<open>'i\<close> or \<open>None\<close> for the nil map.
\<close>

record FResponse =
  rStatusCode :: int
  rContentLength :: int
  rContentWords :: int
  rContentLines :: int
  rDuration :: int

record 'i FeedbackController =
  chain :: mMarkovChain
  matchedInputs :: "'i option list"
  responseHistory :: "mState list"
  maxHistory :: int

definition NewFeedbackController :: "(nat \<Rightarrow> real) \<Rightarrow> 'i FeedbackController" where
  "NewFeedbackController seed =
     \<lparr>chain = newMarkovChain seed, matchedInputs = [], responseHistory = [], maxHistory = 100\<rparr>"

definition UpdateWithResponse :: "'i FeedbackController \<Rightarrow> FResponse \<Rightarrow> bool \<Rightarrow> 'i FeedbackController" where
  "UpdateWithResponse fc resp isMatch =
     (let state = \<lparr>mStatusCode = rStatusCode resp, mContentLength = rContentLength resp,
                   mContentWords = rContentWords resp, mContentLines = rContentLines resp,
                   mDuration = rDuration resp, IsMatch = isMatch\<rparr>;
          chain1 = UpdateChain (chain fc) state;
          history1 = responseHistory fc @ [state];
          history2 = (if int (length history1) > maxHistory fc then tl history1 else history1)
      in fc\<lparr>chain := chain1, responseHistory := history2\<rparr>)"

definition UpdateWithMatchedInput :: "'i FeedbackController \<Rightarrow> 'i option \<Rightarrow> 'i FeedbackController" where
  "UpdateWithMatchedInput fc input =
     (let matched1 = matchedInputs fc @ [input];
          matched2 = (if length matched1 > 100 then tl matched1 else matched1)
      in fc\<lparr>matchedInputs := matched2\<rparr>)"

definition getProbabilityOfMatchTransition :: "'i FeedbackController \<Rightarrow> mState \<Rightarrow> real" where
  "getProbabilityOfMatchTransition fc fromState =
     foldl (\<lambda>prob historyState.
              if IsMatch historyState
              then prob + GetTransitionProbability (chain fc) fromState historyState
              else prob)
       0 (responseHistory fc)"

text \<open>
  The functions that draw from the random source return the controller with the source
  advanced.  \<^verbatim>\<open>int(x)\<close> on a \<^verbatim>\<open>float64\<close> truncates towards zero.
\<close>

definition shouldUseMatchedInput :: "'i FeedbackController \<Rightarrow> bool \<times> 'i FeedbackController" where
  "shouldUseMatchedInput fc =
     (if length (responseHistory fc) < 2 then (length (matchedInputs fc) > 0, fc)
      else
        let previousState = last (responseHistory fc);
            matchProb = getProbabilityOfMatchTransition fc previousState;
            (u, chain1) = Float64 (chain fc)
        in (u < matchProb * (8 / 10), fc\<lparr>chain := chain1\<rparr>))"

definition go_int :: "real \<Rightarrow> int" where
  "go_int x = (if x < 0 then \<lceil>x\<rceil> else \<lfloor>x\<rfloor>)"

definition getWeightedIndex :: "'i FeedbackController \<Rightarrow> int \<Rightarrow> int \<times> 'i FeedbackController" where
  "getWeightedIndex fc len =
     (if len \<le> 0 then (0, fc)
      else
        let (u, chain1) = Float64 (chain fc);
            randVal = u ^ 2
        in (go_int (randVal * real_of_int (len - 1)), fc\<lparr>chain := chain1\<rparr>))"

definition selectFromMatchedInputs :: "'i FeedbackController \<Rightarrow> error + ('i option \<times> 'i FeedbackController)" where
  "selectFromMatchedInputs fc =
     (if length (matchedInputs fc) = 0 then Inr (None, fc)
      else
        let (weightedIndex, fc1) = getWeightedIndex fc (int (length (matchedInputs fc)))
        in if 0 \<le> weightedIndex \<and> weightedIndex < int (length (matchedInputs fc))
           then Inr (matchedInputs fc ! nat weightedIndex, fc1)
           else Inl Panic)"

definition selectAndModifyInput ::
  "'i FeedbackController \<Rightarrow> 'i option \<Rightarrow> error + ('i option \<times> 'i FeedbackController)" where
  "selectAndModifyInput fc baseInput =
     (case selectFromMatchedInputs fc of
        Inl e \<Rightarrow> Inl e
      | Inr (selectedInput, fc1) \<Rightarrow>
          (if selectedInput = None then Inr (baseInput, fc1) else Inr (selectedInput, fc1)))"

text \<open>
  \<^verbatim>\<open>GetNextInput\<close>.  The provider is read through \<^verbatim>\<open>Value()\<close> only; the argument
  \<open>providerValue\<close> is what that call returns.
\<close>

definition GetNextInput ::
  "'i FeedbackController \<Rightarrow> 'i option \<Rightarrow> error + ('i option \<times> bool \<times> 'i FeedbackController)" where
  "GetNextInput fc providerValue =
     (if length (matchedInputs fc) > 0 then
        (let (use, fc1) = shouldUseMatchedInput fc in
         if use then
           (let originalInput = providerValue in
            case selectAndModifyInput fc1 originalInput of
              Inl e \<Rightarrow> Inl e
            | Inr (modifiedInput, fc2) \<Rightarrow> Inr (modifiedInput, True, fc2))
         else Inr (None, False, fc1))
      else Inr (None, False, fc))"

text \<open>
  The calls that record something, and the controller they lead to from
  \<^verbatim>\<open>NewFeedbackController()\<close>; the inputs and the states they insert, in order.
\<close>

datatype 'i fc_op = OpResponse FResponse bool | OpMatchedInput "'i option"

fun apply_fc_op :: "'i FeedbackController \<Rightarrow> 'i fc_op \<Rightarrow> 'i FeedbackController" where
  "apply_fc_op fc (OpResponse resp isMatch) = UpdateWithResponse fc resp isMatch"
| "apply_fc_op fc (OpMatchedInput input) = UpdateWithMatchedInput fc input"

definition run_fc :: "(nat \<Rightarrow> real) \<Rightarrow> 'i fc_op list \<Rightarrow> 'i FeedbackController" where
  "run_fc seed ops = foldl apply_fc_op (NewFeedbackController seed) ops"

definition state_of :: "FResponse \<Rightarrow> bool \<Rightarrow> mState" where
  "state_of resp isMatch =
     \<lparr>mStatusCode = rStatusCode resp, mContentLength = rContentLength resp,
      mContentWords = rContentWords resp, mContentLines = rContentLines resp,
      mDuration = rDuration resp, IsMatch = isMatch\<rparr>"

fun inserted_inputs :: "'i fc_op list \<Rightarrow> 'i option list" where
  "inserted_inputs [] = []"
| "inserted_inputs (OpMatchedInput input # ops) = input # inserted_inputs ops"
| "inserted_inputs (OpResponse resp isMatch # ops) = inserted_inputs ops"

fun inserted_states :: "'i fc_op list \<Rightarrow> mState list" where
  "inserted_states [] = []"
| "inserted_states (OpResponse resp isMatch # ops) = state_of resp isMatch # inserted_states ops"
| "inserted_states (OpMatchedInput input # ops) = inserted_states ops"

text \<open>The last \<open>n\<close> elements of a list, in order.\<close>

definition last_n :: "nat \<Rightarrow> 'a list \<Rightarrow> 'a list" where
  "last_n n xs = drop (length xs - n) xs"

section \<open>The input provider's response update (inputprovider.go)\<close>

text \<open>
  The fields of \<^verbatim>\<open>MarkovInputProvider\<close> that \<^verbatim>\<open>UpdateWithResponse\<close> and \<^verbatim>\<open>AddTransition\<close> use (the
  batch fields belong to the iteration over the word list).  The field \<^verbatim>\<open>MarkovChain\<close> is
  \<open>mipChain\<close> and the method is \<open>mipUpdateWithResponse\<close>, to keep them apart from the type
  and from the controller's method.  The inputs are a map from keyword to value; the bytes
  of a value are a string, and \<^verbatim>\<open>string(value)\<close> is the value itself.  The loop over the
  inputs looks the keyword \<^verbatim>\<open>FUZZ\<close> up and leaves the action empty when it is absent.
\<close>

record MarkovInputProvider =
  mipChain :: MarkovChain
  baselineState :: State
  baselineSizeHash :: string
  depth :: int

definition NewMarkovInputProvider :: "State \<Rightarrow> string \<Rightarrow> int \<Rightarrow> MarkovInputProvider" where
  "NewMarkovInputProvider baseline baselineHash d =
     \<lparr>mipChain = NewMarkovChain, baselineState = baseline, baselineSizeHash = baselineHash,
      depth = d\<rparr>"

definition AddTransition ::
  "MarkovInputProvider \<Rightarrow> State \<Rightarrow> string \<Rightarrow> State \<Rightarrow> real \<Rightarrow> MarkovInputProvider" where
  "AddTransition mip fromState action toState reward =
     (let transition = \<lparr>FromState = fromState, Action = action, ToState = toState, Reward = reward\<rparr>
      in mip\<lparr>mipChain := UpdateTransition (mipChain mip) transition\<rparr>)"

definition mipUpdateWithResponse ::
  "MarkovInputProvider \<Rightarrow> (string \<rightharpoonup> string) \<Rightarrow> Response \<Rightarrow> MarkovInputProvider" where
  "mipUpdateWithResponse mip inputs resp =
     (let currentState = GetStateFromResponseFromResponseStruct resp (depth mip);
          actionValue = (case inputs ''FUZZ'' of None \<Rightarrow> [] | Some v \<Rightarrow> v);
          reward = CalculateRewardFromResponseStruct resp (baselineState mip) (baselineSizeHash mip);
          previousState = baselineState mip
      in AddTransition mip previousState actionValue currentState reward)"

text \<open>A provider as the program builds one, fed a list of (inputs, response) pairs.\<close>

definition run_mip ::
  "State \<Rightarrow> string \<Rightarrow> int \<Rightarrow> ((string \<rightharpoonup> string) \<times> Response) list \<Rightarrow> MarkovInputProvider" where
  "run_mip baseline baselineHash d rs =
     foldl (\<lambda>mip (inputs, resp). mipUpdateWithResponse mip inputs resp)
       (NewMarkovInputProvider baseline baselineHash d) rs"

text \<open>A first response for concrete runs: status 200, and the state it gives.\<close>

definition fresponse0 :: FResponse where
  "fresponse0 = \<lparr>rStatusCode = 200, rContentLength = 2000, rContentWords = 50,
                   rContentLines = 20, rDuration = 3000000\<rparr>"

text \<open>The inputs of a probe of the word \<open>w\<close>.\<close>

definition fuzz :: "string \<Rightarrow> (string \<rightharpoonup> string)" where
  "fuzz w = [''FUZZ'' \<mapsto> w]"

definition provider2 :: MarkovInputProvider where
  "provider2 = run_mip baseline0 ''0'' 1
     [(fuzz ''admin'', response0 200 139), (fuzz ''login'', response0 404 139)]"

definition controller1 :: "string FeedbackController" where
  "controller1 = run_fc seed0 [OpResponse fresponse0 True]"

section \<open>The analysis rollup (feedback.go)\<close>

text \<open>
  \<^verbatim>\<open>AnalyzeResponsePatterns\<close> returns a \<^verbatim>\<open>map[string]interface{}\<close>: empty for an empty history
  (\<open>None\<close> here), and otherwise holding the nine keys of the record \<open>Rollup\<close>.  The four
  integer totals are \<^verbatim>\<open>int64\<close> sums, which wrap around (\<open>wrap64\<close>); the averages and the
  match rate are \<^verbatim>\<open>float64\<close> quotients, modelled as exact reals.

  The status codes are counted in a Go map, \<open>status_counts\<close>.  The list that is sorted is
  built by ranging over that map, in an order Go does not specify: the argument \<open>iteration\<close>
  is the entries of the map in the order the range yields them, any permutation of them
  (\<open>code_iteration_of\<close>).  The sort compares the counts only.
\<close>

record Rollup =
  avg_status_code :: real
  avg_content_length :: real
  avg_content_words :: real
  avg_content_lines :: real
  avg_duration_ns :: real
  match_rate :: real
  total_responses :: nat
  total_matches :: nat
  top_status_codes :: "(int \<times> nat) list"

definition wrap64 :: "int \<Rightarrow> int" where
  "wrap64 x = (x + 2 ^ 63) mod 2 ^ 64 - 2 ^ 63"

definition status_counts :: "mState list \<Rightarrow> (int \<times> nat) list" where
  "status_counts history =
     foldl (\<lambda>statusCodes state. incr_list statusCodes (mStatusCode state)) [] history"

definition code_iteration_of :: "'i FeedbackController \<Rightarrow> (int \<times> nat) list \<Rightarrow> bool" where
  "code_iteration_of fc iteration = (mset iteration = mset (status_counts (responseHistory fc)))"

definition AnalyzeResponsePatterns :: "'i FeedbackController \<Rightarrow> (int \<times> nat) list \<Rightarrow> Rollup option" where
  "AnalyzeResponsePatterns fc iteration =
     (if length (responseHistory fc) = 0 then None
      else
        let totalStatusCodes = foldl (\<lambda>t state. wrap64 (t + mStatusCode state)) 0 (responseHistory fc);
            totalContentLength = foldl (\<lambda>t state. wrap64 (t + mContentLength state)) 0 (responseHistory fc);
            totalContentWords = foldl (\<lambda>t state. wrap64 (t + mContentWords state)) 0 (responseHistory fc);
            totalContentLines = foldl (\<lambda>t state. wrap64 (t + mContentLines state)) 0 (responseHistory fc);
            totalDuration = foldl (\<lambda>t state. wrap64 (t + mDuration state)) 0 (responseHistory fc);
            matchCount = foldl (\<lambda>c state. if IsMatch state then c + 1 else c) 0 (responseHistory fc);
            n = real (length (responseHistory fc));
            statusCodeList = sort_slice iteration
        in Some \<lparr>avg_status_code = real_of_int totalStatusCodes / n,
                 avg_content_length = real_of_int totalContentLength / n,
                 avg_content_words = real_of_int totalContentWords / n,
                 avg_content_lines = real_of_int totalContentLines / n,
                 avg_duration_ns = real_of_int totalDuration / n,
                 match_rate = real matchCount / n,
                 total_responses = length (responseHistory fc),
                 total_matches = matchCount,
                 top_status_codes = take (min 5 (length statusCodeList)) statusCodeList\<rparr>)"

text \<open>How often a status code occurs in a history.\<close>

definition code_count :: "mState list \<Rightarrow> int \<Rightarrow> nat" where
  "code_count history c = length (filter (\<lambda>state. mStatusCode state = c) history)"

text \<open>
  The five responses of \<^verbatim>\<open>TestMarkovAnalysis\<close>: status 200 and 400 in turn, every other one a
  match; and a controller that has seen a 200 and then a 404.
\<close>

definition test_response :: "int \<Rightarrow> FResponse" where
  "test_response i =
     \<lparr>rStatusCode = 200 + i mod 2 * 200, rContentLength = 100 + i * 10,
      rContentWords = 20 + i * 2, rContentLines = 10 + i, rDuration = (50 + i * 5) * 1000000\<rparr>"

definition controller5 :: "string FeedbackController" where
  "controller5 = run_fc seed0
     [OpResponse (test_response 0) True, OpResponse (test_response 1) False,
      OpResponse (test_response 2) True, OpResponse (test_response 3) False,
      OpResponse (test_response 4) True]"

definition controller2 :: "string FeedbackController" where
  "controller2 = run_fc seed0
     [OpResponse fresponse0 True, OpResponse (fresponse0\<lparr>rStatusCode := 404\<rparr>) False]"

section \<open>Properties\<close>

subsection \<open>Decimal rendering\<close>

lemma less_10_cases:
  "d < 10 \<Longrightarrow> d = 0 \<or> d = 1 \<or> d = 2 \<or> d = 3 \<or> d = 4 \<or> d = 5 \<or> d = 6 \<or> d = 7 \<or> d = 8 \<or> d = (9::nat)"
  by arith

lemma digit_val_digit_char: "d < 10 \<Longrightarrow> digit_val (digit_char d) = d"
  using less_10_cases [of d] by (auto simp: digit_val_def digit_char_def)

lemma atoi_nat_snoc: "atoi_nat (s @ [c]) = 10 * atoi_nat s + digit_val c"
  by (simp add: atoi_nat_def)

lemma atoi_nat_fmt_nat: "atoi_nat (fmt_nat n) = n"
proof (induction n rule: fmt_nat.induct)
  case (1 n)
  show ?case
  proof (cases "n < 10")
    case True
    then show ?thesis
      by (simp add: fmt_nat.simps [of n] atoi_nat_def digit_val_digit_char)
  next
    case False
    have "atoi_nat (fmt_nat n) = 10 * atoi_nat (fmt_nat (n div 10)) + digit_val (digit_char (n mod 10))"
      using False by (subst fmt_nat.simps) (simp add: atoi_nat_snoc)
    also have "\<dots> = 10 * (n div 10) + n mod 10"
      using "1.IH" False by (simp add: digit_val_digit_char)
    finally show ?thesis by simp
  qed
qed

lemma fmt_nat_nonempty: "fmt_nat n \<noteq> []"
  by (subst fmt_nat.simps) simp

lemma digit_char_not_minus: "d < 10 \<Longrightarrow> digit_char d \<noteq> CHR ''-''"
proof
  assume d: "d < 10" and eq: "digit_char d = CHR ''-''"
  show False
    using less_10_cases [OF d] eq by (auto simp: digit_char_def)
qed

lemma hd_fmt_nat_not_minus: "hd (fmt_nat n) \<noteq> CHR ''-''"
proof (induction n rule: fmt_nat.induct)
  case (1 n)
  show ?case
  proof (cases "n < 10")
    case True
    then show ?thesis by (simp add: fmt_nat.simps [of n] digit_char_not_minus)
  next
    case False
    then have "hd (fmt_nat n) = hd (fmt_nat (n div 10))"
      by (subst fmt_nat.simps) (simp add: fmt_nat_nonempty)
    with "1.IH" False show ?thesis by simp
  qed
qed

lemma atoi_fmt_d: "atoi (fmt_d i) = i"
proof (cases "i < 0")
  case True
  then show ?thesis
    by (simp add: atoi_def fmt_d_def atoi_nat_fmt_nat)
next
  case False
  obtain c cs where cs: "fmt_nat (nat i) = c # cs"
    using fmt_nat_nonempty [of "nat i"] by (cases "fmt_nat (nat i)") auto
  have "c \<noteq> CHR ''-''"
    using hd_fmt_nat_not_minus [of "nat i"] cs by simp
  then have "atoi (fmt_nat (nat i)) = int (atoi_nat (fmt_nat (nat i)))"
    by (simp add: atoi_def cs)
  with False show ?thesis
    by (simp add: fmt_d_def atoi_nat_fmt_nat)
qed

subsection \<open>QuantizeSize\<close>

lemma atoi_QuantizeSize:
  "atoi (QuantizeSize x) =
     (if x < 100 then round_down 10 (max 0 x)
      else if x < 1000 then round_down 100 x
      else if x < 10000 then round_down 1000 x
      else round_down 10000 x)"
  by (simp add: QuantizeSize_def Let_def atoi_fmt_d round_down_def)

lemma round_down_le: "0 < k \<Longrightarrow> round_down k z \<le> z"
  unfolding round_down_def using div_mult_mod_eq [of z k] pos_mod_sign [of k z] by linarith

lemma round_down_mono: "0 < k \<Longrightarrow> x \<le> y \<Longrightarrow> round_down k x \<le> round_down k y"
  unfolding round_down_def by (simp add: zdiv_mono1 mult_right_mono)

lemma round_down_multiple: "round_down k (m * k) = m * k"
  unfolding round_down_def by (cases "k = 0") simp_all

lemma round_down_idem: "round_down k (round_down k z) = round_down k z"
  unfolding round_down_def by (cases "k = 0") simp_all

lemma round_down_ge: "0 < k \<Longrightarrow> m * k \<le> z \<Longrightarrow> m * k \<le> round_down k z"
  using round_down_mono [of k "m * k" z] by (simp add: round_down_multiple)

lemma bucket_range:
  "x < 100 \<Longrightarrow> 0 \<le> atoi (QuantizeSize x) \<and> atoi (QuantizeSize x) < 100"
  "100 \<le> x \<Longrightarrow> x < 1000 \<Longrightarrow> 100 \<le> atoi (QuantizeSize x) \<and> atoi (QuantizeSize x) < 1000"
  "1000 \<le> x \<Longrightarrow> x < 10000 \<Longrightarrow> 1000 \<le> atoi (QuantizeSize x) \<and> atoi (QuantizeSize x) < 10000"
  "10000 \<le> x \<Longrightarrow> 10000 \<le> atoi (QuantizeSize x)"
proof -
  show "x < 100 \<Longrightarrow> 0 \<le> atoi (QuantizeSize x) \<and> atoi (QuantizeSize x) < 100"
    using round_down_le [of 10 "max 0 x"] round_down_ge [of 10 0 "max 0 x"]
    by (simp add: atoi_QuantizeSize)
  show "100 \<le> x \<Longrightarrow> x < 1000 \<Longrightarrow> 100 \<le> atoi (QuantizeSize x) \<and> atoi (QuantizeSize x) < 1000"
    using round_down_le [of 100 x] round_down_ge [of 100 1 x]
    by (simp add: atoi_QuantizeSize)
  show "1000 \<le> x \<Longrightarrow> x < 10000 \<Longrightarrow> 1000 \<le> atoi (QuantizeSize x) \<and> atoi (QuantizeSize x) < 10000"
    using round_down_le [of 1000 x] round_down_ge [of 1000 1 x]
    by (simp add: atoi_QuantizeSize)
  show "10000 \<le> x \<Longrightarrow> 10000 \<le> atoi (QuantizeSize x)"
    using round_down_ge [of 10000 1 x]
    by (simp add: atoi_QuantizeSize)
qed

lemma range_cases:
  fixes x :: int
  obtains "x < 100" | "100 \<le> x" "x < 1000" | "1000 \<le> x" "x < 10000" | "10000 \<le> x"
  by linarith

lemma QuantizeSize_value_mono:
  assumes xy: "x \<le> y"
  shows "atoi (QuantizeSize x) \<le> atoi (QuantizeSize y)"
proof (cases x rule: range_cases)
  case 1
  show ?thesis
  proof (cases "y < 100")
    case True
    with 1 xy show ?thesis
      by (simp add: atoi_QuantizeSize round_down_mono)
  next
    case False
    then have "100 \<le> atoi (QuantizeSize y)"
      using bucket_range(2-4) [of y] by (cases y rule: range_cases) simp_all
    with bucket_range(1) [OF 1] show ?thesis by linarith
  qed
next
  case 2
  show ?thesis
  proof (cases "y < 1000")
    case True
    with 2 xy show ?thesis
      by (simp add: atoi_QuantizeSize round_down_mono)
  next
    case False
    then have "1000 \<le> atoi (QuantizeSize y)"
      using bucket_range(3-4) [of y] by (cases y rule: range_cases) simp_all
    with bucket_range(2) [OF 2] show ?thesis by linarith
  qed
next
  case 3
  show ?thesis
  proof (cases "y < 10000")
    case True
    with 3 xy show ?thesis
      by (simp add: atoi_QuantizeSize round_down_mono)
  next
    case False
    then have "10000 \<le> atoi (QuantizeSize y)"
      using bucket_range(4) [of y] by simp
    with bucket_range(3) [OF 3] show ?thesis by linarith
  qed
next
  case 4
  with xy show ?thesis
    by (simp add: atoi_QuantizeSize round_down_mono)
qed

lemma QuantizeSize_value_fixed: "atoi (QuantizeSize (atoi (QuantizeSize x))) = atoi (QuantizeSize x)"
proof (cases x rule: range_cases)
  case 1
  from bucket_range(1) [OF 1] have "atoi (QuantizeSize (atoi (QuantizeSize x))) =
      round_down 10 (atoi (QuantizeSize x))"
    by (subst atoi_QuantizeSize) (simp add: max_absorb2)
  with 1 show ?thesis by (simp add: atoi_QuantizeSize round_down_idem)
next
  case 2
  from bucket_range(2) [OF 2] have "atoi (QuantizeSize (atoi (QuantizeSize x))) =
      round_down 100 (atoi (QuantizeSize x))"
    by (subst atoi_QuantizeSize) simp
  with 2 show ?thesis by (simp add: atoi_QuantizeSize round_down_idem)
next
  case 3
  from bucket_range(3) [OF 3] have "atoi (QuantizeSize (atoi (QuantizeSize x))) =
      round_down 1000 (atoi (QuantizeSize x))"
    by (subst atoi_QuantizeSize) simp
  with 3 show ?thesis by (simp add: atoi_QuantizeSize round_down_idem)
next
  case 4
  from bucket_range(4) [OF 4] have "atoi (QuantizeSize (atoi (QuantizeSize x))) =
      round_down 10000 (atoi (QuantizeSize x))"
    by (subst atoi_QuantizeSize) simp
  with 4 show ?thesis by (simp add: atoi_QuantizeSize round_down_idem)
qed

lemma QuantizeSize_negative: "x < 0 \<Longrightarrow> QuantizeSize x = QuantizeSize 0"
  by (simp add: QuantizeSize_def)

lemma QuantizeSize_zero: "QuantizeSize 0 = ''0''"
  by (simp add: QuantizeSize_def fmt_d_def digit_char_def fmt_nat.simps [of 0])

lemma fmt_d_atoi_QuantizeSize: "fmt_d (atoi (QuantizeSize y)) = QuantizeSize y"
  by (simp add: QuantizeSize_def Let_def atoi_fmt_d)

text \<open>
  Claim C8.  \<^verbatim>\<open>QuantizeSize\<close> is idempotent (quantizing the integer value of a bucket label
  gives the same label again), monotonic non-decreasing in its argument (compared through the
  integer values of the labels), and sends every negative input to the bucket of 0, the
  string \<open>''0''\<close>.
\<close>

theorem QuantizeSize_idempotent_monotone_clamped:
  "QuantizeSize (atoi (QuantizeSize x)) = QuantizeSize x \<and>
   (x \<le> y \<longrightarrow> atoi (QuantizeSize x) \<le> atoi (QuantizeSize y)) \<and>
   (x < 0 \<longrightarrow> QuantizeSize x = QuantizeSize 0 \<and> QuantizeSize x = ''0'')"
proof -
  have "QuantizeSize (atoi (QuantizeSize x)) = fmt_d (atoi (QuantizeSize (atoi (QuantizeSize x))))"
    by (simp only: fmt_d_atoi_QuantizeSize)
  also have "\<dots> = QuantizeSize x"
    by (simp only: QuantizeSize_value_fixed fmt_d_atoi_QuantizeSize)
  finally show ?thesis
    using QuantizeSize_value_mono [of x y] QuantizeSize_negative [of x] QuantizeSize_zero
    by simp
qed

theorem QuantizeSize_idempotent_monotone_clamped_witness:
  "QuantizeSize (atoi (QuantizeSize 995)) = QuantizeSize 995 \<and>
   QuantizeSize 995 = ''900'' \<and>
   (995::int) \<le> 1005 \<and> atoi (QuantizeSize 995) \<le> atoi (QuantizeSize 1005) \<and>
   (-7::int) < 0 \<and> QuantizeSize (-7) = QuantizeSize 0 \<and> QuantizeSize (-7) = ''0''"
proof -
  have q: "QuantizeSize 995 = ''900''"
    by (simp add: QuantizeSize_def fmt_d_def digit_char_def fmt_nat.simps)
  have h1: "(995::int) \<le> 1005" and h2: "(-7::int) < 0"
    by simp_all
  from QuantizeSize_idempotent_monotone_clamped [of 995 1005] h1
  have a: "QuantizeSize (atoi (QuantizeSize 995)) = QuantizeSize 995"
    and b: "atoi (QuantizeSize 995) \<le> atoi (QuantizeSize 1005)"
    by blast+
  from QuantizeSize_idempotent_monotone_clamped [of "-7" 0] h2
  have c: "QuantizeSize (-7) = QuantizeSize 0" and d: "QuantizeSize (-7) = ''0''"
    by blast+
  from a q h1 b h2 c d show ?thesis
    by blast
qed

subsection \<open>The reward function\<close>

lemma reward_2xx:
  "200 \<le> StatusCode resp \<Longrightarrow> StatusCode resp < 300 \<Longrightarrow>
   CalculateRewardFromResponseStruct resp b d = 3"
  by (simp add: CalculateRewardFromResponseStruct_def)

lemma reward_3xx:
  "300 \<le> StatusCode resp \<Longrightarrow> StatusCode resp < 400 \<Longrightarrow>
   CalculateRewardFromResponseStruct resp b d = 2"
  by (simp add: CalculateRewardFromResponseStruct_def)

lemma reward_5xx:
  "500 \<le> StatusCode resp \<Longrightarrow> StatusCode resp < 600 \<Longrightarrow>
   CalculateRewardFromResponseStruct resp b d = 26 / 10"
  by (simp add: CalculateRewardFromResponseStruct_def)

lemma reward_other:
  "StatusCode resp < 200 \<or> 600 \<le> StatusCode resp \<Longrightarrow>
   CalculateRewardFromResponseStruct resp b d = 2"
  by (auto simp: CalculateRewardFromResponseStruct_def)

lemma reward_401_403:
  "StatusCode resp = 401 \<or> StatusCode resp = 403 \<Longrightarrow>
   CalculateRewardFromResponseStruct resp b d =
     (if differs_from_baseline resp b d then 23 / 10 else 18 / 10)"
  by (auto simp: CalculateRewardFromResponseStruct_def differs_from_baseline_def Let_def)

lemma reward_plain_4xx:
  "400 \<le> StatusCode resp \<Longrightarrow> StatusCode resp < 500 \<Longrightarrow>
   StatusCode resp \<noteq> 401 \<Longrightarrow> StatusCode resp \<noteq> 403 \<Longrightarrow>
   CalculateRewardFromResponseStruct resp b d =
     (if differs_from_baseline resp b d then 1 / 2 else 0)"
  by (simp add: CalculateRewardFromResponseStruct_def differs_from_baseline_def Let_def)

text \<open>
  The value the code computes, by status code and by whether the response differs from the
  baseline (state hash first, then content digest): 3.0 for a status in [200,300), 2.0 for a
  status in [300,400), 2.6 for a status in [500,600), 2.0 below 200 and from 600 on; 1.8 for
  401 or 403 when the 0.5 bonus does not apply and 2.3 when it does; for any other status in
  [400,500), 0.5 when both the state hash and the content digest differ from the baseline and
  0.0 otherwise, so a 404 whose digest differs but whose state hash equals the baseline's
  scores 0.0.
\<close>

lemma reward_by_status:
  "(200 \<le> StatusCode resp \<and> StatusCode resp < 300 \<longrightarrow>
      CalculateRewardFromResponseStruct resp b d = 3) \<and>
   (300 \<le> StatusCode resp \<and> StatusCode resp < 400 \<longrightarrow>
      CalculateRewardFromResponseStruct resp b d = 2) \<and>
   (500 \<le> StatusCode resp \<and> StatusCode resp < 600 \<longrightarrow>
      CalculateRewardFromResponseStruct resp b d = 26 / 10) \<and>
   (StatusCode resp < 200 \<or> 600 \<le> StatusCode resp \<longrightarrow>
      CalculateRewardFromResponseStruct resp b d = 2) \<and>
   (StatusCode resp = 401 \<or> StatusCode resp = 403 \<longrightarrow>
      CalculateRewardFromResponseStruct resp b d =
        (if differs_from_baseline resp b d then 23 / 10 else 18 / 10)) \<and>
   (400 \<le> StatusCode resp \<and> StatusCode resp < 500 \<and>
    StatusCode resp \<noteq> 401 \<and> StatusCode resp \<noteq> 403 \<longrightarrow>
      CalculateRewardFromResponseStruct resp b d =
        (if differs_from_baseline resp b d then 1 / 2 else 0)) \<and>
   (StatusCode resp = 404 \<and>
    Hash (GetStateFromResponseFromResponseStruct resp (Depth b)) = Hash b \<longrightarrow>
      CalculateRewardFromResponseStruct resp b d = 0)"
proof -
  have "StatusCode resp = 404 \<Longrightarrow>
        Hash (GetStateFromResponseFromResponseStruct resp (Depth b)) = Hash b \<Longrightarrow>
        CalculateRewardFromResponseStruct resp b d = 0"
    using reward_plain_4xx [of resp b d] by (simp add: differs_from_baseline_def)
  then show ?thesis
    using reward_2xx [of resp b d] reward_3xx [of resp b d] reward_5xx [of resp b d]
      reward_other [of resp b d] reward_401_403 [of resp b d] reward_plain_4xx [of resp b d]
    by blast
qed

lemma fnv64a_a: "fnv64a [97] = 0xaf63dc4c8601ec8c"
  by (simp add: fnv64a_def)

lemma GetSizeHash_a: "GetSizeHash [97] = ''af63dc4c8601ec8c''"
  by (simp add: GetSizeHash_def fnv64a_a fmt_x.simps hex_char_def)

lemma Hash_baseline0: "Hash baseline0 = ''4xx_100_1''"
  by (simp add: baseline0_def Hash_def fmt_d_def fmt_nat.simps digit_char_def)

lemma Hash_response0_4xx_139:
  "400 \<le> status \<Longrightarrow> status < 500 \<Longrightarrow>
   Hash (GetStateFromResponseFromResponseStruct (response0 status 139) 1) = ''4xx_100_1''"
  by (simp add: response0_def Hash_def GetStateFromResponseFromResponseStruct_def quantizeSize_def
      QuantizeSize_def fmt_d_def fmt_nat.simps digit_char_def)

lemma Hash_response0_4xx_50:
  "400 \<le> status \<Longrightarrow> status < 500 \<Longrightarrow>
   Hash (GetStateFromResponseFromResponseStruct (response0 status 50) 1) = ''4xx_50_1''"
  by (simp add: response0_def Hash_def GetStateFromResponseFromResponseStruct_def quantizeSize_def
      QuantizeSize_def fmt_d_def fmt_nat.simps digit_char_def)

lemma differs_50:
  "400 \<le> status \<Longrightarrow> status < 500 \<Longrightarrow> differs_from_baseline (response0 status 50) baseline0 ''0''"
proof -
  assume st: "400 \<le> status" "status < 500"
  have d: "Depth baseline0 = 1" and dat: "Data (response0 status 50) = [97]"
    by (simp_all add: baseline0_def response0_def)
  show ?thesis
    using Hash_response0_4xx_50 [OF st]
    by (simp add: differs_from_baseline_def Hash_baseline0 GetSizeHash_a d dat)
qed

lemma same_hash_139:
  "400 \<le> status \<Longrightarrow> status < 500 \<Longrightarrow>
   Hash (GetStateFromResponseFromResponseStruct (response0 status 139) (Depth baseline0)) = Hash baseline0 \<and>
   GetSizeHash (Data (response0 status 139)) \<noteq> ''0''"
proof -
  assume st: "400 \<le> status" "status < 500"
  have d: "Depth baseline0 = 1" and dat: "Data (response0 status 139) = [97]"
    by (simp_all add: baseline0_def response0_def)
  show ?thesis
    using Hash_response0_4xx_139 [OF st]
    by (simp add: Hash_baseline0 GetSizeHash_a d dat)
qed

lemma reward_by_status_examples:
  "CalculateRewardFromResponseStruct (response0 200 139) baseline0 ''0'' = 3 \<and>
   CalculateRewardFromResponseStruct (response0 301 139) baseline0 ''0'' = 2 \<and>
   CalculateRewardFromResponseStruct (response0 500 139) baseline0 ''0'' = 26 / 10 \<and>
   CalculateRewardFromResponseStruct (response0 100 139) baseline0 ''0'' = 2 \<and>
   CalculateRewardFromResponseStruct (response0 403 139) baseline0 ''0'' = 18 / 10 \<and>
   CalculateRewardFromResponseStruct (response0 403 50) baseline0 ''0'' = 23 / 10 \<and>
   CalculateRewardFromResponseStruct (response0 404 50) baseline0 ''0'' = 1 / 2 \<and>
   CalculateRewardFromResponseStruct (response0 404 139) baseline0 ''0'' = 0"
proof -
  have s: "StatusCode (response0 status len) = status" for status len
    by (simp add: response0_def)
  have nd: "\<not> differs_from_baseline (response0 403 139) baseline0 ''0''"
    using same_hash_139 [of 403] by (simp add: differs_from_baseline_def)
  have d403: "differs_from_baseline (response0 403 50) baseline0 ''0''"
    and d404: "differs_from_baseline (response0 404 50) baseline0 ''0''"
    by (simp_all add: differs_50)
  have e404: "Hash (GetStateFromResponseFromResponseStruct (response0 404 139) (Depth baseline0)) = Hash baseline0"
    using same_hash_139 [of 404] by simp
  show ?thesis
    using reward_by_status [of "response0 200 139" baseline0 "''0''"]
      reward_by_status [of "response0 301 139" baseline0 "''0''"]
      reward_by_status [of "response0 500 139" baseline0 "''0''"]
      reward_by_status [of "response0 100 139" baseline0 "''0''"]
      reward_by_status [of "response0 403 139" baseline0 "''0''"]
      reward_by_status [of "response0 403 50" baseline0 "''0''"]
      reward_by_status [of "response0 404 50" baseline0 "''0''"]
      reward_by_status [of "response0 404 139" baseline0 "''0''"]
      nd d403 d404 e404
    by (simp add: s)
qed

text \<open>
  Claim C1.  The table of the claim gives 2.0 for a 2xx status, 1.0 for 3xx, 1.6 for 5xx and
  1.8 for a 401 or 403 that does not differ from the baseline.  The comment before the final
  \<^verbatim>\<open>switch\<close> of the code says the same of the order: success responses and 401/403 come
  before the other status codes.  The code adds its base reward of 1.0 in the first \<^verbatim>\<open>if\<close>, and
  adds 1.0 once more in the \<^verbatim>\<open>else\<close> branch of the 4xx test, for every status outside [400,500).
  So a response with status 200 scores 3.0, one with status 301 scores 2.0 and one with
  status 500 scores 2.6, while one with status 403 that does not differ from the baseline
  scores 1.8: below both the redirect and the server error.
\<close>

theorem reward_table_failing_input:
  "CalculateRewardFromResponseStruct (response0 200 139) baseline0 ''0'' = 3 \<and>
   CalculateRewardFromResponseStruct (response0 301 139) baseline0 ''0'' = 2 \<and>
   CalculateRewardFromResponseStruct (response0 500 139) baseline0 ''0'' = 26 / 10 \<and>
   CalculateRewardFromResponseStruct (response0 403 139) baseline0 ''0'' = 18 / 10 \<and>
   CalculateRewardFromResponseStruct (response0 403 139) baseline0 ''0'' <
     CalculateRewardFromResponseStruct (response0 301 139) baseline0 ''0'' \<and>
   CalculateRewardFromResponseStruct (response0 403 139) baseline0 ''0'' <
     CalculateRewardFromResponseStruct (response0 500 139) baseline0 ''0''"
proof -
  have r200: "CalculateRewardFromResponseStruct (response0 200 139) baseline0 ''0'' = 3"
    and r301: "CalculateRewardFromResponseStruct (response0 301 139) baseline0 ''0'' = 2"
    and r500: "CalculateRewardFromResponseStruct (response0 500 139) baseline0 ''0'' = 26 / 10"
    by (simp_all add: CalculateRewardFromResponseStruct_def response0_def)
  have "\<not> differs_from_baseline (response0 403 139) baseline0 ''0''"
    using same_hash_139 [of 403] by (simp add: differs_from_baseline_def)
  then have r403: "CalculateRewardFromResponseStruct (response0 403 139) baseline0 ''0'' = 18 / 10"
    using reward_401_403 [of "response0 403 139" baseline0 "''0''"]
    by (simp add: response0_def)
  show ?thesis
    unfolding r200 r301 r500 r403 by simp
qed

subsection \<open>Q-values\<close>

lemma QTable_UpdateTransition_entry:
  "map_of (row_list (QTable (UpdateTransition mc tr)) k) a =
     (if k = Hash (FromState tr) \<and> a = Action tr
      then Some ((case map_of (row_list (QTable mc) k) a of None \<Rightarrow> 0 | Some q \<Rightarrow> q) +
                 Alpha mc * (Reward tr + Gamma mc * max_q (row_list (QTable mc) (Hash (ToState tr))) -
                   (case map_of (row_list (QTable mc) k) a of None \<Rightarrow> 0 | Some q \<Rightarrow> q)))
      else map_of (row_list (QTable mc) k) a)"
  by (auto simp: UpdateTransition_def Let_def row_list_def update_conv' max_q_def
      split: option.splits)

lemma Alpha_UpdateTransition: "Alpha (UpdateTransition mc tr) = Alpha mc"
  by (simp add: UpdateTransition_def Let_def)

lemma run_transitions_snoc:
  "run_transitions (trs @ [tr]) = UpdateTransition (run_transitions trs) tr"
  by (simp add: run_transitions_def)

lemma Alpha_run_transitions: "Alpha (run_transitions trs) = 1 / 10"
  by (induction trs rule: rev_induct)
     (simp_all add: run_transitions_snoc Alpha_UpdateTransition,
      simp add: run_transitions_def NewMarkovChain_def)

lemma observed_key_snoc:
  "observed_key (trs @ [tr]) s a =
     (observed_key trs s a \<or> (Hash (FromState tr) = Hash s \<and> Action tr = a))"
  by (simp add: observed_key_def)

lemma entry_iff_observed_key:
  "(map_of (row_list (QTable (run_transitions trs)) (Hash s)) a = None) = (\<not> observed_key trs s a)"
proof (induction trs rule: rev_induct)
  case Nil
  show ?case
    by (simp add: run_transitions_def NewMarkovChain_def row_list_def observed_key_def)
next
  case (snoc tr trs)
  then show ?case
    by (auto simp: run_transitions_snoc observed_key_snoc QTable_UpdateTransition_entry)
qed

lemma GetExpectedReward_entry:
  "GetExpectedReward mc s a =
     (case map_of (row_list (QTable mc) (Hash s)) a of None \<Rightarrow> 0 | Some q \<Rightarrow> q)"
  by (simp add: GetExpectedReward_def row_list_def split: option.splits)

subsection \<open>The key determines a well-formed state\<close>

lemma split_at_separator:
  "x \<notin> set c \<Longrightarrow> x \<notin> set c' \<Longrightarrow> c @ x # r = c' @ x # r' \<Longrightarrow> c = c' \<and> r = r'"
proof (induction c arbitrary: c')
  case Nil
  then show ?case by (cases c') auto
next
  case (Cons y c)
  then show ?case by (cases c') auto
qed

lemma digit_char_in_digits: "d < 10 \<Longrightarrow> digit_char d \<in> set ''0123456789''"
  unfolding digit_char_def by (rule nth_mem) simp

lemma digit_char_not_separator: "d < 10 \<Longrightarrow> digit_char d \<noteq> CHR ''_''"
  using digit_char_in_digits [of d] by auto

lemma no_separator_fmt_nat: "CHR ''_'' \<notin> set (fmt_nat n)"
proof (induction n rule: fmt_nat.induct)
  case (1 n)
  show ?case
  proof (cases "n < 10")
    case True
    then have "fmt_nat n = [digit_char n]"
      by (subst fmt_nat.simps) simp
    with True show ?thesis
      using digit_char_not_separator [of n] by simp
  next
    case False
    then have e: "fmt_nat n = fmt_nat (n div 10) @ [digit_char (n mod 10)]"
      by (subst fmt_nat.simps) simp
    have "digit_char (n mod 10) \<noteq> CHR ''_''"
      by (rule digit_char_not_separator) simp
    moreover from False have "CHR ''_'' \<notin> set (fmt_nat (n div 10))"
      by (rule "1.IH")
    ultimately show ?thesis
      unfolding e by simp
  qed
qed

lemma no_separator_fmt_d: "CHR ''_'' \<notin> set (fmt_d i)"
  by (simp add: fmt_d_def no_separator_fmt_nat)

lemma fmt_d_inject:
  assumes "fmt_d i = fmt_d j"
  shows "i = j"
proof -
  from assms have "atoi (fmt_d i) = atoi (fmt_d j)"
    by (rule arg_cong)
  then show ?thesis
    by (simp only: atoi_fmt_d)
qed

text \<open>
  \<^verbatim>\<open>Hash()\<close> is injective on well-formed states: the first separator of the key ends the
  \<^verbatim>\<open>CodeClass\<close>, the last one starts the decimal rendering of \<^verbatim>\<open>Depth\<close>, and what lies between
  is the \<^verbatim>\<open>SizeBucket\<close>, whatever it contains.
\<close>

lemma Hash_inject:
  assumes w: "well_formed s" "well_formed s'" and h: "Hash s = Hash s'"
  shows "s = s'"
proof -
  from h have e: "CodeClass s @ CHR ''_'' # (SizeBucket s @ ''_'' @ fmt_d (Depth s)) =
        CodeClass s' @ CHR ''_'' # (SizeBucket s' @ ''_'' @ fmt_d (Depth s'))"
    by (simp add: Hash_def)
  from w have "CHR ''_'' \<notin> set (CodeClass s)" "CHR ''_'' \<notin> set (CodeClass s')"
    by (simp_all add: well_formed_def)
  from split_at_separator [OF this e]
  have c: "CodeClass s = CodeClass s'"
    and r: "SizeBucket s @ ''_'' @ fmt_d (Depth s) = SizeBucket s' @ ''_'' @ fmt_d (Depth s')"
    by simp_all
  from r have "rev (SizeBucket s @ ''_'' @ fmt_d (Depth s)) = rev (SizeBucket s' @ ''_'' @ fmt_d (Depth s'))"
    by (rule arg_cong)
  then have r': "rev (fmt_d (Depth s)) @ CHR ''_'' # rev (SizeBucket s) =
        rev (fmt_d (Depth s')) @ CHR ''_'' # rev (SizeBucket s')"
    by simp
  have "CHR ''_'' \<notin> set (rev (fmt_d (Depth s)))" "CHR ''_'' \<notin> set (rev (fmt_d (Depth s')))"
    using no_separator_fmt_d by simp_all
  from split_at_separator [OF this r']
  have "fmt_d (Depth s) = fmt_d (Depth s')" and b: "SizeBucket s = SizeBucket s'"
    by simp_all
  then have "Depth s = Depth s'"
    by (simp add: fmt_d_inject)
  with c b show ?thesis
    by (intro State.equality) simp_all
qed

lemma Hash_eq_iff: "well_formed s \<Longrightarrow> well_formed s' \<Longrightarrow> (Hash s = Hash s') = (s = s')"
  using Hash_inject [of s s'] by auto

text \<open>Every state the classifier produces is well-formed, for every response and depth.\<close>

lemma well_formed_classified: "well_formed (GetStateFromResponseFromResponseStruct resp d)"
  by (simp add: GetStateFromResponseFromResponseStruct_def well_formed_def Let_def)

text \<open>
  Outside the well-formed states the key does not determine the state: a separator in the
  \<^verbatim>\<open>CodeClass\<close> can be read as the one that ends it.
\<close>

lemma Hash_collision:
  "Hash \<lparr>CodeClass = ''a_b'', SizeBucket = ''c'', Depth = 1\<rparr> =
   Hash \<lparr>CodeClass = ''a'', SizeBucket = ''b_c'', Depth = 1\<rparr>"
  by (simp add: Hash_def)

lemma observed_key_iff_observed:
  assumes s: "well_formed s" and trs: "well_formed_from trs"
  shows "observed_key trs s a = observed trs s a"
proof -
  have "\<And>tr. tr \<in> set trs \<Longrightarrow> (Hash (FromState tr) = Hash s) = (FromState tr = s)"
  proof -
    fix tr assume "tr \<in> set trs"
    with trs have "well_formed (FromState tr)"
      by (simp add: well_formed_from_def list_all_iff)
    then show "(Hash (FromState tr) = Hash s) = (FromState tr = s)"
      using s by (rule Hash_eq_iff)
  qed
  then show ?thesis
    by (auto simp: observed_key_def observed_def list_ex_iff)
qed

text \<open>
  Claim C7.  In a chain built from \<^verbatim>\<open>NewMarkovChain()\<close> by any updates from well-formed
  states, a well-formed state \<open>s\<close> and an action \<open>a\<close> never updated together (no update had this
  state and this action) have expected reward 0.0, a value and not an error; after one further
  update of \<open>(s, a)\<close> with reward \<open>r\<close> towards a state that has no Q-values, the expected reward
  is \<open>\<alpha> \<cdot> r\<close>, and \<open>\<alpha>\<close> is 0.1.  The states the classifier produces are well-formed
  (\<open>well_formed_classified\<close>), and on well-formed states the key under which the table stores
  a state determines it (\<open>Hash_inject\<close>).
\<close>

theorem expectedReward_fresh:
  "well_formed s \<and> well_formed_from trs \<and> \<not> observed trs s a \<longrightarrow>
     GetExpectedReward (run_transitions trs) s a = 0 \<and>
     (no_qvalues (run_transitions trs) t \<longrightarrow>
        GetExpectedReward
          (UpdateTransition (run_transitions trs)
             \<lparr>FromState = s, Action = a, ToState = t, Reward = r\<rparr>) s a
        = Alpha (run_transitions trs) * r \<and>
        Alpha (run_transitions trs) = 1 / 10)"
proof (intro impI conjI)
  assume "well_formed s \<and> well_formed_from trs \<and> \<not> observed trs s a"
  then have "\<not> observed_key trs s a"
    by (simp add: observed_key_iff_observed)
  then have none: "map_of (row_list (QTable (run_transitions trs)) (Hash s)) a = None"
    by (simp add: entry_iff_observed_key)
  then show "GetExpectedReward (run_transitions trs) s a = 0"
    by (simp add: GetExpectedReward_entry)
  assume "no_qvalues (run_transitions trs) t"
  then have "max_q (row_list (QTable (run_transitions trs)) (Hash t)) = 0"
    by (simp add: no_qvalues_def max_q_def)
  with none show "GetExpectedReward
          (UpdateTransition (run_transitions trs)
             \<lparr>FromState = s, Action = a, ToState = t, Reward = r\<rparr>) s a
        = Alpha (run_transitions trs) * r"
    by (simp add: GetExpectedReward_entry QTable_UpdateTransition_entry)
  show "Alpha (run_transitions trs) = 1 / 10"
    by (rule Alpha_run_transitions)
qed

lemma Hash_state1: "Hash state1 = ''4xx_139_1''"
  by (simp add: state1_def Hash_def fmt_d_def fmt_nat.simps digit_char_def)

lemma Hash_state2: "Hash state2 = ''2xx_2000_1''"
  by (simp add: state2_def Hash_def fmt_d_def fmt_nat.simps digit_char_def)

lemma QTable_run_one:
  "QTable (run_transitions [transition0 a r]) =
     [''4xx_139_1'' \<mapsto> [(a, r / 10)]]"
  by (simp add: run_transitions_def UpdateTransition_def Let_def transition0_def NewMarkovChain_def
      Hash_state1 Hash_state2 row_list_def)

theorem expectedReward_fresh_witness:
  "well_formed state1 \<and> well_formed_from [transition0 ''index.html'' 2] \<and>
   \<not> observed [transition0 ''index.html'' 2] state1 ''testfile.php'' \<and>
   GetExpectedReward (run_transitions [transition0 ''index.html'' 2]) state1 ''testfile.php'' = 0 \<and>
   no_qvalues (run_transitions [transition0 ''index.html'' 2]) state2 \<and>
   GetExpectedReward
     (UpdateTransition (run_transitions [transition0 ''index.html'' 2])
        \<lparr>FromState = state1, Action = ''testfile.php'', ToState = state2, Reward = 1\<rparr>)
     state1 ''testfile.php'' = 1 / 10"
proof -
  have h0: "well_formed state1 \<and> well_formed_from [transition0 ''index.html'' 2]"
    by (simp add: well_formed_def well_formed_from_def state1_def transition0_def)
  have h1: "\<not> observed [transition0 ''index.html'' 2] state1 ''testfile.php''"
    by (simp add: observed_def transition0_def)
  have h2: "no_qvalues (run_transitions [transition0 ''index.html'' 2]) state2"
    by (simp add: no_qvalues_def QTable_run_one row_list_def Hash_state2)
  show ?thesis
    using expectedReward_fresh [of state1 "[transition0 ''index.html'' 2]" "''testfile.php''" state2 1]
      h0 h1 h2
    by simp
qed

subsection \<open>Ranking the candidates\<close>

lemma containsString_set: "containsString strs item = (item \<in> set strs)"
  by (induction strs) auto

lemma mset_swap_at: "i < length xs \<Longrightarrow> j < length xs \<Longrightarrow> mset (swap_at i j xs) = mset xs"
  unfolding swap_at_def by (rule mset_swap)

lemma length_swap_at: "length (swap_at i j xs) = length xs"
  by (simp add: swap_at_def)

lemma mset_shuffle_from: "i < length xs \<Longrightarrow> mset (shuffle_from i xs) = mset xs"
proof (induction i arbitrary: xs)
  case 0
  show ?case by simp
next
  case (Suc i)
  have "0 < length xs"
    using Suc.prems by linarith
  then have j: "(Suc i * 31) mod length xs < length xs"
    by (rule mod_less_divisor)
  have "mset (shuffle_from (Suc i) xs) = mset (swap_at (Suc i) ((Suc i * 31) mod length xs) xs)"
    using Suc.prems by (simp add: Suc.IH length_swap_at)
  also have "\<dots> = mset xs"
    using Suc.prems j by (rule mset_swap_at)
  finally show ?case .
qed

lemma mset_shuffleStrings: "mset (shuffleStrings xs) = mset xs"
proof (cases xs)
  case Nil
  then show ?thesis by (simp add: shuffleStrings_def)
next
  case (Cons x ys)
  then show ?thesis by (simp add: shuffleStrings_def mset_shuffle_from)
qed

lemma length_shuffleStrings: "length (shuffleStrings xs) = length xs"
  using mset_shuffleStrings [of xs] by (metis size_mset)

lemma set_shuffleStrings: "set (shuffleStrings xs) = set xs"
  using mset_shuffleStrings [of xs] by (metis set_mset_mset)

lemma distinct_shuffleStrings: "distinct (shuffleStrings xs) = distinct xs"
  using mset_shuffleStrings [of xs] by (metis mset_eq_imp_distinct_iff)

lemma mset_insert_desc: "mset (insert_desc x xs) = add_mset x (mset xs)"
  by (induction xs) auto

lemma set_insert_desc: "set (insert_desc x xs) = insert x (set xs)"
  by (induction xs) auto

lemma sorted_insert_desc:
  "sorted_wrt (\<lambda>x y. snd x \<ge> snd y) xs \<Longrightarrow> sorted_wrt (\<lambda>x y. snd x \<ge> snd y) (insert_desc x xs)"
  by (induction xs) (auto simp: set_insert_desc)

lemma sort_slice_snoc: "sort_slice (xs @ [x]) = insert_desc x (sort_slice xs)"
  by (simp add: sort_slice_def)

lemma mset_sort_slice: "mset (sort_slice xs) = mset xs"
  by (induction xs rule: rev_induct) (simp_all add: sort_slice_snoc mset_insert_desc, simp add: sort_slice_def)

lemma sorted_sort_slice: "sorted_wrt (\<lambda>x y. snd x \<ge> snd y) (sort_slice xs)"
  by (induction xs rule: rev_induct) (simp_all add: sort_slice_snoc sorted_insert_desc, simp add: sort_slice_def)


lemma row_UpdateTransition:
  "\<exists>newQ. row_list (QTable (UpdateTransition mc tr)) k =
     (if k = Hash (FromState tr) then AList.update (Action tr) newQ (row_list (QTable mc) k)
      else row_list (QTable mc) k)"
  by (auto simp: UpdateTransition_def Let_def row_list_def split: option.splits)

lemma distinct_row_UpdateTransition:
  "distinct (map fst (row_list (QTable mc) k)) \<Longrightarrow>
   distinct (map fst (row_list (QTable (UpdateTransition mc tr)) k))"
  using row_UpdateTransition [of mc tr k] by (auto simp: distinct_update)

lemma distinct_row_run:
  "distinct (map fst (row_list (QTable (run_transitions trs)) k))"
proof (induction trs rule: rev_induct)
  case Nil
  show ?case by (simp add: run_transitions_def NewMarkovChain_def row_list_def)
next
  case (snoc tr trs)
  then show ?case by (simp add: run_transitions_snoc distinct_row_UpdateTransition)
qed

lemma getRandomSubset_nonneg:
  "0 \<le> n \<Longrightarrow> getRandomSubset wl n =
     Inr (if n \<ge> int (length wl) then wl else take (nat n) (shuffleStrings wl))"
  by (simp add: getRandomSubset_def Let_def)

lemma getRandomSubset_neg: "n < 0 \<Longrightarrow> getRandomSubset wl n = Inl Panic"
  by (simp add: getRandomSubset_def Let_def)

lemma GetBest_neg: "n < 0 \<Longrightarrow> GetBestActionsForState maxCap mc state wl n it = Inl Panic"
  by (simp add: GetBestActionsForState_def Let_def getRandomSubset_neg make_strings_def
      split: option.splits)

lemma GetBest_unfold:
  assumes n: "0 \<le> n"
  shows "GetBestActionsForState maxCap mc state wl n it =
     (if QTable mc (Hash state) = None \<or> filter (\<lambda>(a, q). a \<in> set wl) it = []
      then getRandomSubset wl n
      else if maxCap < n then Inl Panic
      else Inr (map fst (take (nat n) (sort_slice (filter (\<lambda>(a, q). a \<in> set wl) it))) @
                take (nat n - length (take (nat n) (sort_slice (filter (\<lambda>(a, q). a \<in> set wl) it))))
                  (shuffleStrings (filter (\<lambda>w. w \<notin> fst ` set (take (nat n) (sort_slice (filter (\<lambda>(a, q). a \<in> set wl) it)))) wl))))"
proof -
  have "int (length xs) < n \<or> nat n - length xs = 0" for xs :: "string list"
    using n by linarith
  then show ?thesis
    using n
    by (auto simp: GetBestActionsForState_def Let_def containsString_set make_strings_def
        split: option.splits)
qed

lemma ranked_ranking:
  assumes it: "iteration_of mc state it"
  shows "ranking_of mc state wl (sort_slice (filter (\<lambda>(a, q). a \<in> set wl) it))"
  using it by (simp add: ranking_of_def iteration_of_def mset_sort_slice sorted_sort_slice)

lemma distinct_keys_ranked:
  assumes d: "distinct (map fst (row_list (QTable mc) (Hash state)))"
    and r: "ranking_of mc state wl ranked"
  shows "distinct (map fst ranked) \<and> fst ` set ranked \<subseteq> set wl"
proof -
  let ?f = "filter (\<lambda>(a, q). a \<in> set wl) (row_list (QTable mc) (Hash state))"
  have m: "mset ranked = mset ?f"
    using r by (simp add: ranking_of_def)
  have "mset (map fst ranked) = mset (map fst ?f)"
    using arg_cong [OF m, of "image_mset fst"] by simp
  moreover have "distinct (map fst ?f)"
    using d by (rule distinct_map_filter)
  ultimately have "distinct (map fst ranked)"
    using mset_eq_imp_distinct_iff by blast
  moreover have "set ranked = set ?f"
    using m by (rule mset_eq_setD)
  then have "fst ` set ranked \<subseteq> set wl"
    by auto
  ultimately show ?thesis ..
qed

lemma length_filter_notin:
  assumes "distinct wl" "distinct res" "set res \<subseteq> set wl"
  shows "length (filter (\<lambda>w. w \<notin> set res) wl) = length wl - length res"
proof -
  have "distinct (filter (\<lambda>w. w \<notin> set res) wl)"
    using assms(1) by simp
  then have "length (filter (\<lambda>w. w \<notin> set res) wl) = card (set (filter (\<lambda>w. w \<notin> set res) wl))"
    by (simp only: distinct_card)
  also have "set (filter (\<lambda>w. w \<notin> set res) wl) = set wl - set res"
    by auto
  finally have "length (filter (\<lambda>w. w \<notin> set res) wl) = card (set wl - set res)" .
  also have "\<dots> = card (set wl) - card (set res)"
    using assms(3) by (simp add: card_Diff_subset)
  also have "\<dots> = length wl - length res"
    using assms(1,2) by (simp add: distinct_card)
  finally show ?thesis .
qed

lemma sort_slice_Nil_iff: "sort_slice xs = [] \<longleftrightarrow> xs = []"
  using mset_sort_slice [of xs] by (metis mset_zero_iff)

lemma random_subset_props:
  fixes wl :: "string list" and n :: int
  assumes n: "0 \<le> n"
  defines "ys \<equiv> (if n \<ge> int (length wl) then wl else take (nat n) (shuffleStrings wl))"
  shows "length ys = min (nat n) (length wl)"
    and "distinct wl \<Longrightarrow> distinct ys"
    and "set ys \<subseteq> set wl"
proof -
  show "length ys = min (nat n) (length wl)"
    using n by (auto simp: ys_def length_shuffleStrings)
  show "distinct wl \<Longrightarrow> distinct ys"
    by (simp add: ys_def distinct_shuffleStrings)
  show "set ys \<subseteq> set wl"
    using set_take_subset [of "nat n" "shuffleStrings wl"]
    by (auto simp: ys_def set_shuffleStrings)
qed

lemma ranked_fill_props:
  fixes wl :: "string list" and ranked :: "(string \<times> real) list" and k :: nat
  assumes dk: "distinct (map fst ranked)" and sub: "fst ` set ranked \<subseteq> set wl"
    and dw: "distinct wl"
  defines "res \<equiv> map fst (take k ranked)"
  defines "ys \<equiv> res @ take (k - length ranked) (shuffleStrings (filter (\<lambda>w. w \<notin> fst ` set (take k ranked)) wl))"
  shows "length ys = min k (length wl) \<and> distinct ys \<and> set ys \<subseteq> set wl"
proof -
  let ?rem = "filter (\<lambda>w. w \<notin> set res) wl"
  have sr: "set res = fst ` set (take k ranked)"
    by (simp add: res_def)
  have dres: "distinct res"
    unfolding res_def take_map [symmetric] using dk by (rule distinct_take)
  have subres: "set res \<subseteq> set wl"
    using sub set_take_subset [of k ranked] by (auto simp: sr)
  have lres: "length res = min k (length ranked)"
    by (simp add: res_def min.commute)
  have lrem: "length ?rem = length wl - length res"
    using dw dres subres by (rule length_filter_notin)
  have le: "length res \<le> length wl"
    using dres subres dw by (metis card_mono List.finite_set distinct_card)
  let ?fill = "take (k - length ranked) (shuffleStrings ?rem)"
  have ys: "ys = res @ ?fill"
    by (simp add: ys_def sr)
  have lfill: "length ?fill = min (k - length ranked) (length wl - length res)"
    by (simp add: length_shuffleStrings lrem min.commute)
  have "length ys = min k (length wl)"
    using lres lfill le by (simp add: ys) linarith
  moreover have "set ?fill \<subseteq> set ?rem"
    using set_take_subset [of "k - length ranked" "shuffleStrings ?rem"]
    by (simp add: set_shuffleStrings)
  then have disj: "set res \<inter> set ?fill = {}" and subfill: "set ?fill \<subseteq> set wl"
    by auto
  have "distinct ?fill"
    using dw by (simp add: distinct_shuffleStrings)
  then have "distinct ys"
    using dres disj by (simp add: ys)
  moreover have "set ys \<subseteq> set wl"
    using subres subfill by (simp add: ys)
  ultimately show ?thesis by blast
qed

text \<open>
  Claim C3, as the code has it.  In a chain built from \<^verbatim>\<open>NewMarkovChain()\<close> by updates, for
  any order in which the iteration over the state's Q-table row may run, the result of
  \<^verbatim>\<open>GetBestActionsForState\<close> is determined by a ranking: the known actions of the state that
  are among the candidates, in descending order of Q-value (the order among equal Q-values is
  that left by the iteration and the sort; \<^verbatim>\<open>AvailableActions\<close> is not read).  A state with no
  Q-values has an empty ranking.

  \<^item> With \<open>n < 0\<close> the call panics; with a non-empty ranking and \<open>n\<close> beyond the capacity
    \<open>maxCap\<close> that the run time can allocate, it panics too.
  \<^item> With \<open>n \<ge> 0\<close> and an empty ranking, whatever the capacity limit, the result is the
    candidate list itself when \<open>n\<close> reaches its length, and otherwise the first \<open>n\<close> entries of
    the fixed permutation \<^verbatim>\<open>shuffleStrings\<close> of the candidates; its length is
    \<open>min n (length candidates)\<close>.
  \<^item> With \<open>0 \<le> n \<le> maxCap\<close> and a non-empty ranking the result is the first \<open>n\<close> ranked
    actions, followed, when fewer than \<open>n\<close> are ranked, by entries of the fixed permutation of
    the untaken candidates.
  \<^item> In the two cases that return, for distinct candidates the result has
    \<open>min n (length candidates)\<close> distinct entries, all of them candidates.
\<close>

theorem GetBestActionsForState_ranks:
  "iteration_of (run_transitions trs) state iteration \<longrightarrow>
   (\<exists>ranked.
      ranking_of (run_transitions trs) state wordlist ranked \<and>
      (no_qvalues (run_transitions trs) state \<longrightarrow> ranked = []) \<and>
      (n < 0 \<or> (ranked \<noteq> [] \<and> maxCap < n) \<longrightarrow>
         GetBestActionsForState maxCap (run_transitions trs) state wordlist n iteration = Inl Panic) \<and>
      (0 \<le> n \<and> ranked = [] \<longrightarrow>
         GetBestActionsForState maxCap (run_transitions trs) state wordlist n iteration =
           Inr (if n \<ge> int (length wordlist) then wordlist
                else take (nat n) (shuffleStrings wordlist)) \<and>
         length (if n \<ge> int (length wordlist) then wordlist
                 else take (nat n) (shuffleStrings wordlist)) = min (nat n) (length wordlist)) \<and>
      (0 \<le> n \<and> n \<le> maxCap \<and> ranked \<noteq> [] \<longrightarrow>
         GetBestActionsForState maxCap (run_transitions trs) state wordlist n iteration =
           Inr (map fst (take (nat n) ranked) @
                take (nat n - length ranked)
                  (shuffleStrings
                     (filter (\<lambda>w. w \<notin> fst ` set (take (nat n) ranked)) wordlist)))) \<and>
      (0 \<le> n \<and> (ranked = [] \<or> n \<le> maxCap) \<and> distinct wordlist \<longrightarrow>
         (\<exists>ys. GetBestActionsForState maxCap (run_transitions trs) state wordlist n iteration = Inr ys \<and>
               length ys = min (nat n) (length wordlist) \<and> distinct ys \<and>
               set ys \<subseteq> set wordlist)))"
proof
  assume it: "iteration_of (run_transitions trs) state iteration"
  let ?mc = "run_transitions trs"
  let ?G = "GetBestActionsForState maxCap ?mc state wordlist n iteration"
  let ?av = "filter (\<lambda>(a, q). a \<in> set wordlist) iteration"
  define ranked where "ranked = sort_slice ?av"
  define rnd where "rnd = (if n \<ge> int (length wordlist) then wordlist
               else take (nat n) (shuffleStrings wordlist))"
  define full where "full = map fst (take (nat n) ranked) @
              take (nat n - length ranked)
                (shuffleStrings
                   (filter (\<lambda>w. w \<notin> fst ` set (take (nat n) ranked)) wordlist))"
  have r: "ranking_of ?mc state wordlist ranked"
    unfolding ranked_def using it by (rule ranked_ranking)
  have empty_iff: "(ranked = []) = (?av = [])"
    by (simp add: ranked_def sort_slice_Nil_iff)
  have none: "?av = []" if "QTable ?mc (Hash state) = None"
  proof -
    from that have "row_list (QTable ?mc) (Hash state) = []"
      by (simp add: row_list_def)
    with it have "iteration = []"
      by (simp add: iteration_of_def)
    then show ?thesis by simp
  qed
  have noq: "ranked = []" if "no_qvalues ?mc state"
  proof -
    from that it have "iteration = []"
      by (simp add: iteration_of_def no_qvalues_def)
    then show ?thesis by (simp add: empty_iff)
  qed
  have lt: "nat n - min (length ranked) (nat n) = nat n - length ranked"
    by linarith
  have neg: "?G = Inl Panic" if "n < 0"
    using that by (rule GetBest_neg)
  have big: "?G = Inl Panic" if n: "0 \<le> n" and ne: "ranked \<noteq> []" and m: "maxCap < n"
  proof -
    from ne have "QTable ?mc (Hash state) \<noteq> None" "?av \<noteq> []"
      using none empty_iff by auto
    then show ?thesis
      using m by (auto simp: GetBest_unfold [OF n])
  qed
  have panic: "?G = Inl Panic" if "n < 0 \<or> (ranked \<noteq> [] \<and> maxCap < n)"
  proof (cases "n < 0")
    case True
    then show ?thesis by (rule neg)
  next
    case False
    with that have "0 \<le> n" "ranked \<noteq> []" "maxCap < n"
      by simp_all
    then show ?thesis by (rule big)
  qed
  have res_rnd: "?G = Inr rnd" if n: "0 \<le> n" and e: "ranked = []"
    using e by (simp add: GetBest_unfold [OF n] empty_iff rnd_def getRandomSubset_nonneg [OF n])
  have res_full: "?G = Inr full" if n: "0 \<le> n" and m: "n \<le> maxCap" and ne: "ranked \<noteq> []"
  proof -
    from ne have "QTable ?mc (Hash state) \<noteq> None" "?av \<noteq> []"
      using none empty_iff by auto
    then show ?thesis
      using m by (auto simp: GetBest_unfold [OF n] full_def ranked_def [symmetric] lt)
  qed
  have rndp: "length rnd = min (nat n) (length wordlist)"
    "distinct wordlist \<Longrightarrow> distinct rnd" "set rnd \<subseteq> set wordlist" if n: "0 \<le> n"
    unfolding rnd_def using random_subset_props [OF n, of wordlist] by blast+
  have fullp: "length full = min (nat n) (length wordlist) \<and> distinct full \<and> set full \<subseteq> set wordlist"
    if dw: "distinct wordlist"
  proof -
    have "distinct (map fst ranked) \<and> fst ` set ranked \<subseteq> set wordlist"
      using distinct_row_run r by (rule distinct_keys_ranked)
    then show ?thesis
      unfolding full_def using dw ranked_fill_props [of ranked wordlist "nat n"] by blast
  qed
  have props: "\<exists>ys. ?G = Inr ys \<and> length ys = min (nat n) (length wordlist) \<and> distinct ys \<and>
               set ys \<subseteq> set wordlist"
    if a: "0 \<le> n \<and> (ranked = [] \<or> n \<le> maxCap) \<and> distinct wordlist"
  proof (cases "ranked = []")
    case True
    with a have "?G = Inr rnd"
      by (simp add: res_rnd)
    moreover from a have "length rnd = min (nat n) (length wordlist) \<and> distinct rnd \<and>
               set rnd \<subseteq> set wordlist"
      using rndp by simp
    ultimately show ?thesis by blast
  next
    case False
    with a have "?G = Inr full"
      by (simp add: res_full)
    moreover from a have "length full = min (nat n) (length wordlist) \<and> distinct full \<and>
               set full \<subseteq> set wordlist"
      using fullp by simp
    ultimately show ?thesis by blast
  qed
  have "ranking_of ?mc state wordlist ranked \<and>
      (no_qvalues ?mc state \<longrightarrow> ranked = []) \<and>
      (n < 0 \<or> (ranked \<noteq> [] \<and> maxCap < n) \<longrightarrow> ?G = Inl Panic) \<and>
      (0 \<le> n \<and> ranked = [] \<longrightarrow> ?G = Inr rnd \<and> length rnd = min (nat n) (length wordlist)) \<and>
      (0 \<le> n \<and> n \<le> maxCap \<and> ranked \<noteq> [] \<longrightarrow> ?G = Inr full) \<and>
      (0 \<le> n \<and> (ranked = [] \<or> n \<le> maxCap) \<and> distinct wordlist \<longrightarrow>
         (\<exists>ys. ?G = Inr ys \<and> length ys = min (nat n) (length wordlist) \<and> distinct ys \<and>
               set ys \<subseteq> set wordlist))"
    using r noq panic res_rnd res_full rndp(1) props by blast
  then show "\<exists>ranked.
      ranking_of ?mc state wordlist ranked \<and>
      (no_qvalues ?mc state \<longrightarrow> ranked = []) \<and>
      (n < 0 \<or> (ranked \<noteq> [] \<and> maxCap < n) \<longrightarrow> ?G = Inl Panic) \<and>
      (0 \<le> n \<and> ranked = [] \<longrightarrow>
         ?G = Inr (if n \<ge> int (length wordlist) then wordlist
                else take (nat n) (shuffleStrings wordlist)) \<and>
         length (if n \<ge> int (length wordlist) then wordlist
                 else take (nat n) (shuffleStrings wordlist)) = min (nat n) (length wordlist)) \<and>
      (0 \<le> n \<and> n \<le> maxCap \<and> ranked \<noteq> [] \<longrightarrow>
         ?G = Inr (map fst (take (nat n) ranked) @
                take (nat n - length ranked)
                  (shuffleStrings
                     (filter (\<lambda>w. w \<notin> fst ` set (take (nat n) ranked)) wordlist)))) \<and>
      (0 \<le> n \<and> (ranked = [] \<or> n \<le> maxCap) \<and> distinct wordlist \<longrightarrow>
         (\<exists>ys. ?G = Inr ys \<and> length ys = min (nat n) (length wordlist) \<and> distinct ys \<and>
               set ys \<subseteq> set wordlist))"
    unfolding rnd_def full_def by (rule exI)
qed

lemma QTable_chain_ab:
  "QTable chain_ab = [''4xx_139_1'' \<mapsto> [(''a'', 1 / 10), (''b'', 1 / 10)]]"
  by (simp add: chain_ab_def run_transitions_def UpdateTransition_def Let_def transition0_def
      NewMarkovChain_def Hash_state1 Hash_state2 row_list_def)

lemma AvailableActions_chain_ab:
  "AvailableActions chain_ab (Hash state1) = Some [''a'', ''b'']"
  by (simp add: chain_ab_def run_transitions_def UpdateTransition_def Let_def transition0_def
      NewMarkovChain_def Hash_state1 Hash_state2 row_list_def)

lemma iteration_ab: "iteration_of chain_ab state1 [(''a'', 1 / 10), (''b'', 1 / 10)]"
  by (simp add: iteration_of_def QTable_chain_ab Hash_state1 row_list_def)

lemma iteration_ba: "iteration_of chain_ab state1 [(''b'', 1 / 10), (''a'', 1 / 10)]"
  by (simp add: iteration_of_def QTable_chain_ab Hash_state1 row_list_def)

lemma make_strings_small: "make_strings maxCap_amd64 1 = Inr [] \<and> make_strings maxCap_amd64 2 = Inr []"
  by (simp add: make_strings_def maxCap_amd64_def)

lemma best_ba:
  "GetBestActionsForState maxCap_amd64 chain_ab state1 [''a'', ''b''] 1 [(''b'', 1 / 10), (''a'', 1 / 10)]
     = Inr [''b'']"
  by (simp add: GetBestActionsForState_def QTable_chain_ab Hash_state1 sort_slice_def
      make_strings_small)

lemma best_ab:
  "GetBestActionsForState maxCap_amd64 chain_ab state1 [''a'', ''b''] 1 [(''a'', 1 / 10), (''b'', 1 / 10)]
     = Inr [''a'']"
  by (simp add: GetBestActionsForState_def QTable_chain_ab Hash_state1 sort_slice_def
      make_strings_small)

lemma shuffle3: "shuffleStrings [''a'', ''b'', ''c''] = [''a'', ''b'', ''c'']"
  by code_simp

lemma best_new:
  "GetBestActionsForState maxCap_amd64 NewMarkovChain state1 [''a'', ''b'', ''c''] 1 [] = Inr [''a'']"
  by (simp add: GetBestActionsForState_def NewMarkovChain_def getRandomSubset_def shuffle3)

lemma shuffle2: "shuffleStrings [''c'', ''d''] = [''c'', ''d'']"
  by code_simp

lemma best_fill:
  "GetBestActionsForState maxCap_amd64 chain_ab state1 [''c'', ''a'', ''d''] 2 [(''b'', 1 / 10), (''a'', 1 / 10)]
     = Inr [''a'', ''c'']"
  by (simp add: GetBestActionsForState_def QTable_chain_ab Hash_state1 sort_slice_def Let_def
      shuffle2 make_strings_small)

lemma best_too_big:
  "GetBestActionsForState maxCap_amd64 chain_ab state1 [''c'', ''a'', ''d''] (2 ^ 44 + 1)
     [(''b'', 1 / 10), (''a'', 1 / 10)] = Inl Panic"
  by (simp add: GetBestActionsForState_def QTable_chain_ab Hash_state1 sort_slice_def Let_def
      make_strings_def maxCap_amd64_def)

theorem GetBestActionsForState_ranks_witness:
  "iteration_of chain_ab state1 [(''b'', 1 / 10), (''a'', 1 / 10)] \<and>
   (0::int) \<le> 2 \<and> 2 \<le> maxCap_amd64 \<and> distinct [''c'', ''a'', ''d''] \<and>
   GetBestActionsForState maxCap_amd64 chain_ab state1 [''c'', ''a'', ''d''] 2
     [(''b'', 1 / 10), (''a'', 1 / 10)] = Inr [''a'', ''c''] \<and>
   GetBestActionsForState maxCap_amd64 chain_ab state1 [''c'', ''a'', ''d''] (2 ^ 44 + 1)
     [(''b'', 1 / 10), (''a'', 1 / 10)] = Inl Panic \<and>
   (\<exists>ranked ys.
      ranking_of chain_ab state1 [''c'', ''a'', ''d''] ranked \<and>
      ranked \<noteq> [] \<and>
      GetBestActionsForState maxCap_amd64 chain_ab state1 [''c'', ''a'', ''d''] 2
        [(''b'', 1 / 10), (''a'', 1 / 10)] = Inr ys \<and>
      ys = map fst (take 2 ranked) @
           take (2 - length ranked)
             (shuffleStrings (filter (\<lambda>w. w \<notin> fst ` set (take 2 ranked)) [''c'', ''a'', ''d''])) \<and>
      length ys = 2 \<and> distinct ys \<and> set ys \<subseteq> set [''c'', ''a'', ''d''])"
proof -
  have h1: "(0::int) \<le> 2" by simp
  have h2: "2 \<le> maxCap_amd64" by (simp add: maxCap_amd64_def)
  have h3: "distinct [''c'', ''a'', ''d'']" by simp
  obtain ranked where
    r: "ranking_of chain_ab state1 [''c'', ''a'', ''d''] ranked"
    and ne: "0 \<le> (2::int) \<and> 2 \<le> maxCap_amd64 \<and> ranked \<noteq> [] \<longrightarrow>
         GetBestActionsForState maxCap_amd64 chain_ab state1 [''c'', ''a'', ''d''] 2
           [(''b'', 1 / 10), (''a'', 1 / 10)] =
         Inr (map fst (take (nat 2) ranked) @
              take (nat 2 - length ranked)
                (shuffleStrings
                   (filter (\<lambda>w. w \<notin> fst ` set (take (nat 2) ranked)) [''c'', ''a'', ''d''])))"
    and d: "0 \<le> (2::int) \<and> (ranked = [] \<or> 2 \<le> maxCap_amd64) \<and> distinct [''c'', ''a'', ''d''] \<longrightarrow>
         (\<exists>ys. GetBestActionsForState maxCap_amd64 chain_ab state1 [''c'', ''a'', ''d''] 2
                 [(''b'', 1 / 10), (''a'', 1 / 10)] = Inr ys \<and>
               length ys = min (nat 2) (length [''c'', ''a'', ''d'']) \<and> distinct ys \<and>
               set ys \<subseteq> set [''c'', ''a'', ''d''])"
    using GetBestActionsForState_ranks [of "[transition0 ''a'' 1, transition0 ''b'' 1]" state1
        "[(''b'', 1 / 10), (''a'', 1 / 10)]" "[''c'', ''a'', ''d'']" 2 maxCap_amd64] iteration_ba
    unfolding chain_ab_def [symmetric] by blast
  have "mset ranked = {#(''a'', 1 / 10)#}"
    using r by (simp add: ranking_of_def QTable_chain_ab Hash_state1 row_list_def)
  then have rne: "ranked \<noteq> []" by auto
  have n2: "nat 2 = 2" by simp
  from d h1 h2 h3 obtain ys where
    g: "GetBestActionsForState maxCap_amd64 chain_ab state1 [''c'', ''a'', ''d''] 2
          [(''b'', 1 / 10), (''a'', 1 / 10)] = Inr ys"
    and p: "length ys = min (nat 2) (length [''c'', ''a'', ''d'']) \<and> distinct ys \<and>
            set ys \<subseteq> set [''c'', ''a'', ''d'']"
    by blast
  from ne h1 h2 rne g have e: "ys = map fst (take 2 ranked) @
           take (2 - length ranked)
             (shuffleStrings (filter (\<lambda>w. w \<notin> fst ` set (take 2 ranked)) [''c'', ''a'', ''d'']))"
    unfolding n2 by simp
  from p have p': "length ys = 2 \<and> distinct ys \<and> set ys \<subseteq> set [''c'', ''a'', ''d'']"
    by simp
  have "\<exists>ranked ys.
      ranking_of chain_ab state1 [''c'', ''a'', ''d''] ranked \<and>
      ranked \<noteq> [] \<and>
      GetBestActionsForState maxCap_amd64 chain_ab state1 [''c'', ''a'', ''d''] 2
        [(''b'', 1 / 10), (''a'', 1 / 10)] = Inr ys \<and>
      ys = map fst (take 2 ranked) @
           take (2 - length ranked)
             (shuffleStrings (filter (\<lambda>w. w \<notin> fst ` set (take 2 ranked)) [''c'', ''a'', ''d''])) \<and>
      length ys = 2 \<and> distinct ys \<and> set ys \<subseteq> set [''c'', ''a'', ''d'']"
    using r rne g e p' by blast
  then show ?thesis
    using iteration_ba h1 h2 h3 best_fill best_too_big by blast
qed

text \<open>
  Claim C3 breaks ties by first-seen order in \<^verbatim>\<open>AvailableActions\<close> and samples at random.  In
  \<open>chain_ab\<close> the actions \<open>a\<close> and \<open>b\<close> were first seen in this order and have equal
  Q-values.  The code ranks by iterating over the Q-table row and never reads
  \<^verbatim>\<open>AvailableActions\<close>: when the iteration yields \<open>b\<close> first, the top action is \<open>b\<close>, and
  when it yields \<open>a\<close> first, it is \<open>a\<close>.  For a state without Q-values the selection is a
  fixed one: the first of three candidates.
\<close>

theorem GetBestActionsForState_ranks_counterexample:
  "AvailableActions chain_ab (Hash state1) = Some [''a'', ''b''] \<and>
   GetExpectedReward chain_ab state1 ''a'' = GetExpectedReward chain_ab state1 ''b'' \<and>
   iteration_of chain_ab state1 [(''b'', 1 / 10), (''a'', 1 / 10)] \<and>
   GetBestActionsForState maxCap_amd64 chain_ab state1 [''a'', ''b''] 1 [(''b'', 1 / 10), (''a'', 1 / 10)]
     = Inr [''b''] \<and>
   iteration_of chain_ab state1 [(''a'', 1 / 10), (''b'', 1 / 10)] \<and>
   GetBestActionsForState maxCap_amd64 chain_ab state1 [''a'', ''b''] 1 [(''a'', 1 / 10), (''b'', 1 / 10)]
     = Inr [''a''] \<and>
   GetBestActionsForState maxCap_amd64 NewMarkovChain state1 [''a'', ''b'', ''c''] 1 [] = Inr [''a'']"
proof -
  have "GetExpectedReward chain_ab state1 ''a'' = GetExpectedReward chain_ab state1 ''b''"
    by (simp add: GetExpectedReward_def QTable_chain_ab Hash_state1)
  then show ?thesis
    using AvailableActions_chain_ab iteration_ba best_ba iteration_ab best_ab best_new
    by blast
qed

subsection \<open>Transition probabilities of the raw-state chain\<close>

lemma foldl_total:
  "foldl (\<lambda>total (nextState, count). total + count) (a::nat) counts = a + sum_list (map snd counts)"
  by (induction counts arbitrary: a) (auto simp: case_prod_beta)

lemma foldl_assign:
  "distinct (map fst counts) \<Longrightarrow>
   foldl (\<lambda>r (nextState, count). r(nextState \<mapsto> f count)) r0 counts =
     (\<lambda>k2. case map_of counts k2 of None \<Rightarrow> r0 k2 | Some c \<Rightarrow> Some (f c))"
proof (induction counts arbitrary: r0)
  case Nil
  show ?case by simp
next
  case (Cons p counts)
  obtain k c where p: "p = (k, c)" by (cases p)
  have "k \<notin> fst ` set counts" and d: "distinct (map fst counts)"
    using Cons.prems p by auto
  then have nk: "map_of counts k = None"
    by (simp add: map_of_eq_None_iff)
  show ?case
    using Cons.IH [OF d, of "r0(k \<mapsto> f c)"] nk
    by (auto simp: p fun_eq_iff split: option.splits)
qed

lemma distinct_incr_list: "distinct (map fst m) \<Longrightarrow> distinct (map fst (incr_list m k))"
  by (simp add: incr_list_def distinct_update)

lemma map_of_incr_list:
  "map_of (incr_list m k) k2 =
     (if k2 = k then Some ((case map_of m k of None \<Rightarrow> 0 | Some c \<Rightarrow> c) + 1) else map_of m k2)"
  by (simp add: incr_list_def update_conv')

lemma sum_update:
  "sum_list (map snd (AList.update k v m)) + (case map_of m k of None \<Rightarrow> 0 | Some c \<Rightarrow> c)
     = sum_list (map snd m) + (v::nat)"
  by (induction m) auto

lemma sum_incr_list: "sum_list (map snd (incr_list m k)) = sum_list (map snd m) + 1"
  using sum_update [of k "(case map_of m k of None \<Rightarrow> 0 | Some c \<Rightarrow> c) + 1" m]
  by (simp add: incr_list_def)

lemma incr_list_nonempty: "incr_list m k \<noteq> []"
  by (cases m) (auto simp: incr_list_def)

lemma updateProbabilities_eq:
  assumes d: "distinct (map fst (row_list (mStateCounts mc) k))"
    and pos: "sum_list (map snd (row_list (mStateCounts mc) k)) \<noteq> 0"
    and old: "\<And>k2. map_of (row_list (mStateCounts mc) k) k2 = None \<Longrightarrow> row (Transitions mc) k k2 = None"
  shows "updateProbabilities mc k =
           mc\<lparr>Transitions := (Transitions mc)(k \<mapsto> probabilities_of (row_list (mStateCounts mc) k))\<rparr>"
proof -
  let ?counts = "row_list (mStateCounts mc) k"
  let ?t1 = "(case Transitions mc k of None \<Rightarrow> (Transitions mc)(k \<mapsto> Map.empty) | Some _ \<Rightarrow> Transitions mc)"
  have r1: "row ?t1 k = row (Transitions mc) k"
    by (simp add: row_def split: option.splits)
  have "foldl (\<lambda>r (nextState, count). r(nextState \<mapsto> real count / real (sum_list (map snd ?counts))))
          (row ?t1 k) ?counts = probabilities_of ?counts"
    using old by (auto simp: foldl_assign [OF d] r1 probabilities_of_def fun_eq_iff split: option.splits)
  moreover have "?t1(k \<mapsto> x) = (Transitions mc)(k \<mapsto> x)" for x
    by (simp split: option.splits)
  ultimately show ?thesis
    using pos by (auto simp: updateProbabilities_def Let_def foldl_total)
qed

lemma mStateCounts_updateProbabilities: "mStateCounts (updateProbabilities mc k) = mStateCounts mc"
  by (simp add: updateProbabilities_def Let_def)

lemma row_mUpdateTransition:
  "row_list (mStateCounts (mUpdateTransition mc s t)) k =
     (if k = State_String s then incr_list (row_list (mStateCounts mc) k) (State_String t)
      else row_list (mStateCounts mc) k)"
  by (simp add: mUpdateTransition_def Let_def mStateCounts_updateProbabilities row_list_def
      split: option.splits)

lemma mUpdateTransition_eq:
  assumes ok: "tables_ok mc"
  shows "mUpdateTransition mc s t =
     mc\<lparr>mStateCounts := (mStateCounts mc)(State_String s \<mapsto>
            incr_list (row_list (mStateCounts mc) (State_String s)) (State_String t)),
         Transitions := (Transitions mc)(State_String s \<mapsto>
            probabilities_of (incr_list (row_list (mStateCounts mc) (State_String s)) (State_String t)))\<rparr>"
proof -
  let ?k = "State_String s"
  let ?row = "row_list (mStateCounts mc) ?k"
  let ?row' = "incr_list ?row (State_String t)"
  let ?sc1 = "(case mStateCounts mc ?k of None \<Rightarrow> (mStateCounts mc)(?k \<mapsto> []) | Some _ \<Rightarrow> mStateCounts mc)"
  let ?mc2 = "mc\<lparr>mStateCounts := ?sc1(?k \<mapsto> incr_list (row_list ?sc1 ?k) (State_String t))\<rparr>"
  have sc: "?sc1(?k \<mapsto> incr_list (row_list ?sc1 ?k) (State_String t)) = (mStateCounts mc)(?k \<mapsto> ?row')"
    by (simp add: row_list_def split: option.splits)
  have rl: "row_list (mStateCounts ?mc2) ?k = ?row'"
    by (simp add: sc) (simp add: row_list_def)
  have d: "distinct (map fst ?row)"
    using ok by (simp add: tables_ok_def)
  have tr: "Transitions mc ?k = (if ?row = [] then None else Some (probabilities_of ?row))"
    using ok by (simp add: tables_ok_def)
  have old: "row (Transitions ?mc2) ?k k2 = None" if "map_of (row_list (mStateCounts ?mc2) ?k) k2 = None" for k2
  proof -
    from that have "map_of ?row k2 = None"
      unfolding rl by (simp add: map_of_incr_list split: if_splits)
    then show ?thesis
      using tr by (simp add: row_def probabilities_of_def)
  qed
  have "updateProbabilities ?mc2 ?k =
      ?mc2\<lparr>Transitions := (Transitions ?mc2)(?k \<mapsto> probabilities_of (row_list (mStateCounts ?mc2) ?k))\<rparr>"
  proof (rule updateProbabilities_eq)
    show "distinct (map fst (row_list (mStateCounts ?mc2) ?k))"
      unfolding rl using d by (rule distinct_incr_list)
    show "sum_list (map snd (row_list (mStateCounts ?mc2) ?k)) \<noteq> 0"
      unfolding rl by (simp add: sum_incr_list)
    show "\<And>k2. map_of (row_list (mStateCounts ?mc2) ?k) k2 = None \<Longrightarrow> row (Transitions ?mc2) ?k k2 = None"
      by (rule old)
  qed
  then show ?thesis
    unfolding rl by (simp add: mUpdateTransition_def Let_def sc)
qed

lemma tables_ok_mUpdateTransition:
  assumes ok: "tables_ok mc"
  shows "tables_ok (mUpdateTransition mc s t)"
  using ok unfolding mUpdateTransition_eq [OF ok]
  by (auto simp: tables_ok_def row_list_def distinct_incr_list incr_list_nonempty)

lemma tables_ok_new: "tables_ok (newMarkovChain seed)"
  by (simp add: tables_ok_def newMarkovChain_def row_list_def)

lemma tables_ok_UpdateChain: "tables_ok mc \<Longrightarrow> tables_ok (UpdateChain mc s)"
  using tables_ok_mUpdateTransition [of mc "last (History mc)" s]
  by (simp add: UpdateChain_def Let_def tables_ok_def)

lemma cnt_mUpdateTransition:
  "cnt (mUpdateTransition mc s t) k1 k2 =
     cnt mc k1 k2 + (if k1 = State_String s \<and> k2 = State_String t then 1 else 0)"
  by (simp add: cnt_def row_mUpdateTransition map_of_incr_list)

lemma tot_mUpdateTransition:
  "tot (mUpdateTransition mc s t) k1 = tot mc k1 + (if k1 = State_String s then 1 else 0)"
  by (simp add: tot_def row_mUpdateTransition sum_incr_list)

lemma History_mUpdateTransition: "History (mUpdateTransition mc s t) = History mc"
  by (simp add: mUpdateTransition_def updateProbabilities_def Let_def)

lemma History_UpdateChain: "History (UpdateChain mc s) = History mc @ [s]"
  by (simp add: UpdateChain_def Let_def History_mUpdateTransition)

lemma cnt_UpdateChain:
  "cnt (UpdateChain mc s) k1 k2 =
     (if History mc = [] then cnt mc k1 k2 else cnt (mUpdateTransition mc (last (History mc)) s) k1 k2)"
  by (simp add: UpdateChain_def Let_def cnt_def)

lemma tot_UpdateChain:
  "tot (UpdateChain mc s) k1 =
     (if History mc = [] then tot mc k1 else tot (mUpdateTransition mc (last (History mc)) s) k1)"
  by (simp add: UpdateChain_def Let_def tot_def)

lemma count_pair_key_Cons:
  "count_pair_key ((a, b) # lg) k1 k2 =
     (if State_String a = k1 \<and> State_String b = k2 then 1 else 0) + count_pair_key lg k1 k2"
  by (simp add: count_pair_key_def)

lemma count_from_key_Cons:
  "count_from_key ((a, b) # lg) k1 = (if State_String a = k1 then 1 else 0) + count_from_key lg k1"
  by (simp add: count_from_key_def)

lemma run_counts:
  "cnt (foldl apply_chain_op mc ops) k1 k2 =
     cnt mc k1 k2 + count_pair_key (transition_log (History mc) ops) k1 k2 \<and>
   tot (foldl apply_chain_op mc ops) k1 =
     tot mc k1 + count_from_key (transition_log (History mc) ops) k1"
proof (induction ops arbitrary: mc)
  case Nil
  show ?case by (simp add: count_pair_key_def count_from_key_def)
next
  case (Cons op ops)
  show ?case
  proof (cases op)
    case (OpUpdateChain s)
    show ?thesis
      using Cons.IH [of "UpdateChain mc s"]
      by (auto simp: OpUpdateChain History_UpdateChain cnt_UpdateChain tot_UpdateChain
          cnt_mUpdateTransition tot_mUpdateTransition count_pair_key_Cons count_from_key_Cons)
  next
    case (OpUpdateTransition s t)
    show ?thesis
      using Cons.IH [of "mUpdateTransition mc s t"]
      by (auto simp: OpUpdateTransition History_mUpdateTransition
          cnt_mUpdateTransition tot_mUpdateTransition count_pair_key_Cons count_from_key_Cons)
  qed
qed

lemma tables_ok_run: "tables_ok mc \<Longrightarrow> tables_ok (foldl apply_chain_op mc ops)"
proof (induction ops arbitrary: mc)
  case Nil
  then show ?case by simp
next
  case (Cons op ops)
  then show ?case
    by (cases op) (simp_all add: tables_ok_UpdateChain tables_ok_mUpdateTransition)
qed

lemma GetTransitionProbability_tables:
  assumes ok: "tables_ok mc"
  shows "GetTransitionProbability mc s t =
           real (cnt mc (State_String s) (State_String t)) / real (tot mc (State_String s))"
proof -
  let ?row = "row_list (mStateCounts mc) (State_String s)"
  have tr: "Transitions mc (State_String s) = (if ?row = [] then None else Some (probabilities_of ?row))"
    using ok by (simp add: tables_ok_def)
  show ?thesis
    by (simp add: GetTransitionProbability_def Let_def tr cnt_def tot_def probabilities_of_def
        split: option.splits)
qed

lemma run_chain_counts:
  "cnt (run_chain seed ops) k1 k2 = count_pair_key (transition_log [] ops) k1 k2"
  "tot (run_chain seed ops) k1 = count_from_key (transition_log [] ops) k1"
  using run_counts [of "newMarkovChain seed" ops k1 k2]
  by (simp_all add: run_chain_def) (simp_all add: newMarkovChain_def cnt_def tot_def row_list_def)

lemma GetTransitionProbability_run:
  "GetTransitionProbability (run_chain seed ops) s t =
     real (count_pair_key (transition_log [] ops) (State_String s) (State_String t)) /
     real (count_from_key (transition_log [] ops) (State_String s))"
proof -
  have "tables_ok (run_chain seed ops)"
    unfolding run_chain_def using tables_ok_new by (rule tables_ok_run)
  then show ?thesis
    by (simp add: GetTransitionProbability_tables run_chain_counts)
qed

lemma sum_indicator:
  "distinct ks \<Longrightarrow> sum_list (map (\<lambda>k. if x = k then 1 else 0) ks) = (if x \<in> set ks then 1 else (0::nat))"
  by (induction ks) auto

lemma sum_count_pair_key:
  assumes d: "distinct ks"
    and cover: "\<forall>(a, b) \<in> set lg. State_String a = k1 \<longrightarrow> State_String b \<in> set ks"
  shows "sum_list (map (count_pair_key lg k1) ks) = count_from_key lg k1"
  using cover
proof (induction lg)
  case Nil
  show ?case by (simp add: count_pair_key_def count_from_key_def) 
next
  case (Cons p lg)
  obtain a b where p: "p = (a, b)" by (cases p)
  have ih: "sum_list (map (count_pair_key lg k1) ks) = count_from_key lg k1"
    using Cons by simp
  have "count_pair_key (p # lg) k1 =
        (\<lambda>k. (if State_String a = k1 \<and> State_String b = k then 1 else 0) + count_pair_key lg k1 k)"
    by (simp add: p count_pair_key_Cons fun_eq_iff)
  then have "sum_list (map (count_pair_key (p # lg) k1) ks) =
        sum_list (map (\<lambda>k. (if State_String a = k1 \<and> State_String b = k then 1 else 0)) ks) +
        sum_list (map (count_pair_key lg k1) ks)"
    by (simp add: sum_list_addf)
  also have "sum_list (map (\<lambda>k. (if State_String a = k1 \<and> State_String b = k then 1 else 0)) ks) =
       (if State_String a = k1 then 1 else (0::nat))"
    using sum_indicator [OF d, of "State_String b"] Cons.prems by (auto simp: p)
  finally show ?case
    by (simp add: ih p count_from_key_Cons)
qed

lemma sum_list_divide_real:
  "sum_list (map (\<lambda>x. real (f x) / c) xs) = real (sum_list (map f xs)) / c"
  by (induction xs) (simp_all add: add_divide_distrib)

text \<open>
  Claim C10, as the code has it.  The chain identifies a state with its key, the string
  \<^verbatim>\<open>String()\<close>, in which the duration is cut to whole milliseconds.  After any sequence of
  \<^verbatim>\<open>UpdateChain\<close> and \<^verbatim>\<open>UpdateTransition\<close> calls on a new chain,
  \<^verbatim>\<open>GetTransitionProbability(s, t)\<close> is the number of recorded transitions from the key of \<open>s\<close>
  to the key of \<open>t\<close> divided by the number of recorded transitions from the key of \<open>s\<close>; it is
  0 when no transition between the two keys was recorded; and when at least one transition
  from the key of \<open>s\<close> was recorded, the probabilities towards states \<open>ts\<close> with pairwise
  different keys that cover every recorded successor key add up to 1.  Probabilities are
  exact quotients here; the rounding of \<^verbatim>\<open>float64\<close> is not modelled.
\<close>

theorem transition_probability_by_key:
  "GetTransitionProbability (run_chain seed ops) s t =
     (if count_from_key (transition_log [] ops) (State_String s) = 0 then 0
      else real (count_pair_key (transition_log [] ops) (State_String s) (State_String t)) /
           real (count_from_key (transition_log [] ops) (State_String s))) \<and>
   (count_pair_key (transition_log [] ops) (State_String s) (State_String t) = 0 \<longrightarrow>
      GetTransitionProbability (run_chain seed ops) s t = 0) \<and>
   (0 < count_from_key (transition_log [] ops) (State_String s) \<and>
    distinct (map State_String ts) \<and>
    (\<forall>(a, b) \<in> set (transition_log [] ops).
        State_String a = State_String s \<longrightarrow> State_String b \<in> State_String ` set ts) \<longrightarrow>
      sum_list (map (GetTransitionProbability (run_chain seed ops) s) ts) = 1)"
proof (intro conjI impI)
  let ?lg = "transition_log [] ops"
  show "GetTransitionProbability (run_chain seed ops) s t =
     (if count_from_key ?lg (State_String s) = 0 then 0
      else real (count_pair_key ?lg (State_String s) (State_String t)) /
           real (count_from_key ?lg (State_String s)))"
    by (simp add: GetTransitionProbability_run)
  show "GetTransitionProbability (run_chain seed ops) s t = 0"
    if "count_pair_key ?lg (State_String s) (State_String t) = 0"
    using that by (simp add: GetTransitionProbability_run)
  show "sum_list (map (GetTransitionProbability (run_chain seed ops) s) ts) = 1"
    if h: "0 < count_from_key ?lg (State_String s) \<and>
    distinct (map State_String ts) \<and>
    (\<forall>(a, b) \<in> set ?lg.
        State_String a = State_String s \<longrightarrow> State_String b \<in> State_String ` set ts)"
  proof -
    have "sum_list (map (count_pair_key ?lg (State_String s)) (map State_String ts)) =
          count_from_key ?lg (State_String s)"
      using h by (intro sum_count_pair_key) auto
    then have s: "sum_list (map (\<lambda>t. count_pair_key ?lg (State_String s) (State_String t)) ts) =
          count_from_key ?lg (State_String s)"
      by (simp add: comp_def)
    have "GetTransitionProbability (run_chain seed ops) s =
          (\<lambda>t. real (count_pair_key ?lg (State_String s) (State_String t)) /
               real (count_from_key ?lg (State_String s)))"
      by (simp add: fun_eq_iff GetTransitionProbability_run)
    then have "sum_list (map (GetTransitionProbability (run_chain seed ops) s) ts) =
          real (sum_list (map (\<lambda>t. count_pair_key ?lg (State_String s) (State_String t)) ts)) /
          real (count_from_key ?lg (State_String s))"
      by (simp add: sum_list_divide_real)
    then show ?thesis
      using h by (simp add: s)
  qed
qed

lemma key_miss_a: "State_String miss_a = ''404_139_10_5_1_false''"
  by (simp add: State_String_def miss_a_def Milliseconds_def fmt_t_def fmt_d_def fmt_nat.simps digit_char_def)

lemma key_miss_b: "State_String miss_b = ''404_139_10_5_1_false''"
  by (simp add: State_String_def miss_b_def Milliseconds_def fmt_t_def fmt_d_def fmt_nat.simps digit_char_def)

lemma key_hit: "State_String hit = ''200_2000_50_20_3_true''"
  by (simp add: State_String_def hit_def Milliseconds_def fmt_t_def fmt_d_def fmt_nat.simps digit_char_def)

lemma log_ops0: "transition_log [] ops0 = [(miss_a, hit), (hit, miss_b), (miss_b, miss_a)]"
  by (simp add: ops0_def)

lemma states_differ: "miss_a \<noteq> miss_b" "miss_a \<noteq> hit" "miss_b \<noteq> hit"
  by (simp_all add: miss_a_def miss_b_def hit_def)

theorem transition_probability_by_key_witness:
  "GetTransitionProbability (run_chain seed0 ops0) miss_a hit = 1 / 2 \<and>
   count_pair_key (transition_log [] ops0) (State_String hit) (State_String hit) = 0 \<and>
   GetTransitionProbability (run_chain seed0 ops0) hit hit = 0 \<and>
   0 < count_from_key (transition_log [] ops0) (State_String miss_a) \<and>
   distinct (map State_String [hit, miss_a]) \<and>
   sum_list (map (GetTransitionProbability (run_chain seed0 ops0) miss_a) [hit, miss_a]) = 1"
proof -
  have c1: "count_from_key (transition_log [] ops0) (State_String miss_a) = 2"
    and c2: "count_pair_key (transition_log [] ops0) (State_String miss_a) (State_String hit) = 1"
    and c3: "count_pair_key (transition_log [] ops0) (State_String hit) (State_String hit) = 0"
    by (simp_all add: log_ops0 count_from_key_def count_pair_key_def key_miss_a key_miss_b key_hit)
  have d: "distinct (map State_String [hit, miss_a])"
    by (simp add: key_miss_a key_hit)
  have cov: "\<forall>(a, b) \<in> set (transition_log [] ops0).
        State_String a = State_String miss_a \<longrightarrow> State_String b \<in> State_String ` set [hit, miss_a]"
    by (simp add: log_ops0 key_miss_a key_miss_b key_hit)
  have pos: "0 < count_from_key (transition_log [] ops0) (State_String miss_a)"
    by (simp add: c1)
  from transition_probability_by_key [of seed0 ops0 miss_a hit "[hit, miss_a]"] pos d cov
  have a: "GetTransitionProbability (run_chain seed0 ops0) miss_a hit = 1 / 2"
    and s: "sum_list (map (GetTransitionProbability (run_chain seed0 ops0) miss_a) [hit, miss_a]) = 1"
    by (simp_all add: c1 c2)
  from transition_probability_by_key [of seed0 ops0 hit hit "[]"] c3
  have z: "GetTransitionProbability (run_chain seed0 ops0) hit hit = 0"
    by blast
  from a c3 z pos d s show ?thesis by blast
qed

text \<open>
  Counted by state instead, claim C10 fails.  \<open>miss_a\<close> and \<open>miss_b\<close> are different states with
  the same key.  After the four responses \<open>ops0\<close> exactly one transition leaves \<open>miss_a\<close>, and
  it goes to \<open>hit\<close>, so the claim gives probability 1 from \<open>miss_a\<close> to \<open>hit\<close>; the code
  returns 1/2.  No transition from \<open>miss_a\<close> to \<open>miss_a\<close> was recorded, so the claim gives 0; the
  code returns 1/2.
\<close>

theorem transition_probability_counterexample:
  "miss_a \<noteq> miss_b \<and>
   transition_log [] ops0 = [(miss_a, hit), (hit, miss_b), (miss_b, miss_a)] \<and>
   count_pair (transition_log [] ops0) miss_a hit = 1 \<and>
   count_from (transition_log [] ops0) miss_a = 1 \<and>
   GetTransitionProbability (run_chain seed0 ops0) miss_a hit = 1 / 2 \<and>
   count_pair (transition_log [] ops0) miss_a miss_a = 0 \<and>
   GetTransitionProbability (run_chain seed0 ops0) miss_a miss_a = 1 / 2"
proof -
  have "GetTransitionProbability (run_chain seed0 ops0) miss_a hit = 1 / 2"
    "GetTransitionProbability (run_chain seed0 ops0) miss_a miss_a = 1 / 2"
    by (simp_all add: GetTransitionProbability_run log_ops0 count_from_key_def count_pair_key_def
        key_miss_a key_miss_b key_hit)
  moreover have "count_pair (transition_log [] ops0) miss_a hit = 1"
    "count_from (transition_log [] ops0) miss_a = 1"
    "count_pair (transition_log [] ops0) miss_a miss_a = 0"
    using states_differ by (simp_all add: log_ops0 count_pair_def count_from_def) 
  ultimately show ?thesis
    using states_differ(1) log_ops0 by blast
qed

subsection \<open>The buffers of the feedback controller\<close>

lemma last_n_snoc:
  assumes "0 < n"
  shows "last_n n (last_n n xs @ [x]) = last_n n (xs @ [x])"
proof (cases "length xs \<le> n")
  case True
  then show ?thesis by (simp add: last_n_def)
next
  case False
  then have "Suc (length xs) - (length xs - n + n) + (length xs - n) = Suc (length xs) - n"
    using assms by linarith
  then show ?thesis
    by (simp add: last_n_def)
qed

lemma length_last_n: "length (last_n n xs) = min n (length xs)"
  by (auto simp: last_n_def)

lemma fifo_step:
  assumes le: "length xs \<le> n" and n: "0 < n"
  shows "(if length (xs @ [x]) > n then tl (xs @ [x]) else xs @ [x]) = last_n n (xs @ [x])"
proof (cases "length xs = n")
  case True
  then have ne: "xs \<noteq> []" and "Suc (length xs) - n = 1" and "Suc 0 - n = 0"
    using n by auto
  with True show ?thesis
    by (simp add: last_n_def drop_Suc)
next
  case False
  with le show ?thesis by (simp add: last_n_def)
qed

lemma inserted_inputs_append:
  "inserted_inputs (ops @ ops') = inserted_inputs ops @ inserted_inputs ops'"
  by (induction ops rule: inserted_inputs.induct) simp_all

lemma inserted_states_append:
  "inserted_states (ops @ ops') = inserted_states ops @ inserted_states ops'"
  by (induction ops rule: inserted_states.induct) simp_all

lemma run_fc_snoc: "run_fc seed (ops @ [op]) = apply_fc_op (run_fc seed ops) op"
  by (simp add: run_fc_def)

lemma UpdateWithResponse_fields:
  "matchedInputs (UpdateWithResponse fc resp m) = matchedInputs fc"
  "maxHistory (UpdateWithResponse fc resp m) = maxHistory fc"
  "chain (UpdateWithResponse fc resp m) = UpdateChain (chain fc) (state_of resp m)"
  "responseHistory (UpdateWithResponse fc resp m) =
     (if int (length (responseHistory fc @ [state_of resp m])) > maxHistory fc
      then tl (responseHistory fc @ [state_of resp m]) else responseHistory fc @ [state_of resp m])"
  by (simp_all add: UpdateWithResponse_def Let_def state_of_def)

lemma UpdateWithMatchedInput_fields:
  "responseHistory (UpdateWithMatchedInput fc x) = responseHistory fc"
  "maxHistory (UpdateWithMatchedInput fc x) = maxHistory fc"
  "chain (UpdateWithMatchedInput fc x) = chain fc"
  "matchedInputs (UpdateWithMatchedInput fc x) =
     (if length (matchedInputs fc @ [x]) > 100 then tl (matchedInputs fc @ [x]) else matchedInputs fc @ [x])"
  by (simp_all add: UpdateWithMatchedInput_def Let_def)

lemma run_fc_buffers:
  "matchedInputs (run_fc seed ops) = last_n 100 (inserted_inputs ops) \<and>
   responseHistory (run_fc seed ops) = last_n 100 (inserted_states ops) \<and>
   maxHistory (run_fc seed ops) = 100 \<and>
   History (chain (run_fc seed ops)) = inserted_states ops"
proof (induction ops rule: rev_induct)
  case Nil
  show ?case
    by (simp add: run_fc_def NewFeedbackController_def newMarkovChain_def last_n_def)
next
  case (snoc op ops)
  show ?case
  proof (cases op)
    case (OpResponse resp m)
    have l: "length (last_n 100 (inserted_states ops)) \<le> 100"
      by (simp add: length_last_n)
    have "int (length (ys @ [y])) > 100 \<longleftrightarrow> length (ys @ [y]) > 100" for ys :: "mState list" and y
      by simp
    then have "responseHistory (run_fc seed (ops @ [op])) =
          last_n 100 (last_n 100 (inserted_states ops) @ [state_of resp m])"
      using snoc fifo_step [OF l, of "state_of resp m"]
      by (simp add: run_fc_snoc OpResponse UpdateWithResponse_fields split: if_splits)
    then show ?thesis
      using snoc
      by (simp add: run_fc_snoc OpResponse UpdateWithResponse_fields(1-3) inserted_inputs_append
          inserted_states_append last_n_snoc History_UpdateChain)
  next
    case (OpMatchedInput x)
    have l: "length (last_n 100 (inserted_inputs ops)) \<le> 100"
      by (simp add: length_last_n)
    have "matchedInputs (run_fc seed (ops @ [op])) =
          last_n 100 (last_n 100 (inserted_inputs ops) @ [x])"
      using snoc fifo_step [OF l, of x]
      by (simp add: run_fc_snoc OpMatchedInput UpdateWithMatchedInput_fields split: if_splits)
    then show ?thesis
      using snoc
      by (simp add: run_fc_snoc OpMatchedInput UpdateWithMatchedInput_fields(1-3) inserted_inputs_append
          inserted_states_append last_n_snoc)
  qed
qed

text \<open>
  Claim C5.  After any sequence of \<^verbatim>\<open>UpdateWithResponse\<close> and \<^verbatim>\<open>UpdateWithMatchedInput\<close> calls
  on a new controller, the matched-input memory is exactly the last 100 inputs inserted, in
  insertion order, and the response history is exactly the last 100 states recorded, in
  order; so neither holds more than 100 entries.  An insertion into a buffer of 100 entries
  drops exactly the oldest one and keeps the order of the rest, and every insertion puts the
  new entry at the most recent end.  Each call leaves the other buffer as it is.
\<close>

theorem fifo_buffers_bounded:
  "matchedInputs (run_fc seed ops) = last_n 100 (inserted_inputs ops) \<and>
   responseHistory (run_fc seed ops) = last_n 100 (inserted_states ops) \<and>
   length (matchedInputs (run_fc seed ops)) \<le> 100 \<and>
   length (responseHistory (run_fc seed ops)) \<le> 100 \<and>
   matchedInputs (UpdateWithMatchedInput (run_fc seed ops) x) =
     (if length (matchedInputs (run_fc seed ops)) = 100
      then tl (matchedInputs (run_fc seed ops)) @ [x]
      else matchedInputs (run_fc seed ops) @ [x]) \<and>
   responseHistory (UpdateWithResponse (run_fc seed ops) resp m) =
     (if length (responseHistory (run_fc seed ops)) = 100
      then tl (responseHistory (run_fc seed ops)) @ [state_of resp m]
      else responseHistory (run_fc seed ops) @ [state_of resp m]) \<and>
   responseHistory (UpdateWithMatchedInput (run_fc seed ops) x) = responseHistory (run_fc seed ops) \<and>
   matchedInputs (UpdateWithResponse (run_fc seed ops) resp m) = matchedInputs (run_fc seed ops)"
proof -
  let ?fc = "run_fc seed ops"
  have b: "matchedInputs ?fc = last_n 100 (inserted_inputs ops)"
    "responseHistory ?fc = last_n 100 (inserted_states ops)"
    "maxHistory ?fc = 100"
    using run_fc_buffers [of seed ops] by simp_all
  have lm: "length (matchedInputs ?fc) \<le> 100" and lh: "length (responseHistory ?fc) \<le> 100"
    by (simp_all add: b length_last_n)
  have m: "matchedInputs (UpdateWithMatchedInput ?fc x) =
     (if length (matchedInputs ?fc) = 100 then tl (matchedInputs ?fc) @ [x]
      else matchedInputs ?fc @ [x])"
  proof (cases "length (matchedInputs ?fc) = 100")
    case True
    then have "matchedInputs ?fc \<noteq> []" by auto
    with True show ?thesis by (simp add: UpdateWithMatchedInput_fields)
  next
    case False
    with lm show ?thesis by (simp add: UpdateWithMatchedInput_fields)
  qed
  have h: "responseHistory (UpdateWithResponse ?fc resp m) =
     (if length (responseHistory ?fc) = 100 then tl (responseHistory ?fc) @ [state_of resp m]
      else responseHistory ?fc @ [state_of resp m])"
  proof (cases "length (responseHistory ?fc) = 100")
    case True
    then have "responseHistory ?fc \<noteq> []" by auto
    with True show ?thesis by (simp add: UpdateWithResponse_fields b(3))
  next
    case False
    with lh show ?thesis by (simp add: UpdateWithResponse_fields b(3))
  qed
  show ?thesis
    using b(1,2) lm lh m h
    by (simp add: UpdateWithMatchedInput_fields(1) UpdateWithResponse_fields(1))
qed

lemma inserted_inputs_replicate:
  "inserted_inputs (replicate n (OpMatchedInput x)) = replicate n x"
  by (induction n) simp_all

theorem fifo_buffers_bounded_witness:
  "matchedInputs (run_fc seed0 (OpMatchedInput (Some (7::nat)) # replicate 99 (OpMatchedInput (Some 0))))
     = Some 7 # replicate 99 (Some 0) \<and>
   length (matchedInputs (run_fc seed0 (OpMatchedInput (Some (7::nat)) # replicate 99 (OpMatchedInput (Some 0)))))
     = 100 \<and>
   matchedInputs (UpdateWithMatchedInput
       (run_fc seed0 (OpMatchedInput (Some (7::nat)) # replicate 99 (OpMatchedInput (Some 0)))) (Some 1))
     = replicate 99 (Some 0) @ [Some 1]"
proof -
  let ?ops = "OpMatchedInput (Some (7::nat)) # replicate 99 (OpMatchedInput (Some 0))"
  have i: "inserted_inputs ?ops = Some 7 # replicate 99 (Some 0)"
    by (simp add: inserted_inputs_replicate)
  have "matchedInputs (run_fc seed0 ?ops) = last_n 100 (inserted_inputs ?ops)"
    using fifo_buffers_bounded [of seed0 ?ops] by (rule conjunct1)
  then have a: "matchedInputs (run_fc seed0 ?ops) = Some 7 # replicate 99 (Some 0)"
    unfolding i by (simp add: last_n_def)
  then have l: "length (matchedInputs (run_fc seed0 ?ops)) = 100"
    by simp
  have "matchedInputs (UpdateWithMatchedInput (run_fc seed0 ?ops) (Some 1)) =
     (if length (matchedInputs (run_fc seed0 ?ops)) = 100
      then tl (matchedInputs (run_fc seed0 ?ops)) @ [Some 1]
      else matchedInputs (run_fc seed0 ?ops) @ [Some 1])"
    using fifo_buffers_bounded [of seed0 ?ops "Some 1"] by blast
  then have "matchedInputs (UpdateWithMatchedInput (run_fc seed0 ?ops) (Some 1))
     = replicate 99 (Some 0) @ [Some 1]"
    unfolding a by simp
  with a l show ?thesis by blast
qed

subsection \<open>Selecting the next input\<close>

lemma go_int_index:
  assumes u: "0 \<le> u" "u < 1" and n: "0 < n"
  shows "0 \<le> go_int (u ^ 2 * real_of_int (int n - 1)) \<and>
         go_int (u ^ 2 * real_of_int (int n - 1)) < int n \<and>
         go_int (u ^ 2 * real_of_int (int n - 1)) = \<lfloor>u ^ 2 * real (n - 1)\<rfloor>"
proof -
  let ?x = "u ^ 2 * real_of_int (int n - 1)"
  have m: "real_of_int (int n - 1) = real (n - 1)"
    using n by (simp add: of_nat_diff)
  have u2: "0 \<le> u ^ 2" "u ^ 2 \<le> 1"
    using u by (simp_all add: power_le_one)
  have x0: "0 \<le> ?x"
    using u2 n by (simp add: m)
  have x1: "?x \<le> real (n - 1)"
    unfolding m using u2 by (simp add: mult_left_le_one_le)
  have g: "go_int ?x = \<lfloor>?x\<rfloor>"
    using x0 by (simp add: go_int_def)
  have "\<lfloor>?x\<rfloor> \<le> int (n - 1)"
    using x1 by (simp add: floor_le_iff) 
  moreover have "0 \<le> \<lfloor>?x\<rfloor>"
    using x0 by simp
  ultimately show ?thesis
    using n g by (simp add: m)
qed


text \<open>
  Claim C6.  With an empty matched-input memory \<^verbatim>\<open>GetNextInput\<close> returns \<open>(nil, false)\<close> and leaves
  the controller as it is, whatever the history and the random source.  With a non-empty
  memory and fewer than two entries in the response history, the gate is open without any
  random draw: \<^verbatim>\<open>GetNextInput\<close> returns \<open>true\<close> together with the selected input, the entry of
  the memory at index \<open>\<lfloor>u\<^sup>2 \<cdot> (n - 1)\<rfloor>\<close> for the next draw \<open>u\<close> of the source (a number in
  \<open>[0, 1)\<close>, as \<^verbatim>\<open>rand.Float64\<close> returns), which lies within the memory; a stored nil input is
  replaced by the provider's current value.
\<close>

theorem GetNextInput_gate:
  "(matchedInputs fc = [] \<longrightarrow> GetNextInput fc base = Inr (None, False, fc)) \<and>
   (matchedInputs fc \<noteq> [] \<and> length (responseHistory fc) < 2 \<and>
    0 \<le> rand_seq (chain fc) (rand_pos (chain fc)) \<and>
    rand_seq (chain fc) (rand_pos (chain fc)) < 1 \<longrightarrow>
      (let u2 = rand_seq (chain fc) (rand_pos (chain fc));
           i = nat \<lfloor>u2 ^ 2 * real (length (matchedInputs fc) - 1)\<rfloor>;
           selected = matchedInputs fc ! i
       in i < length (matchedInputs fc) \<and>
          GetNextInput fc base =
            Inr (if selected = None then base else selected, True,
                 fc\<lparr>chain := (chain fc)\<lparr>rand_pos := rand_pos (chain fc) + 1\<rparr>\<rparr>)))"
proof (intro conjI impI)
  show "GetNextInput fc base = Inr (None, False, fc)" if "matchedInputs fc = []"
    using that by (simp add: GetNextInput_def)
next
  assume a: "matchedInputs fc \<noteq> [] \<and> length (responseHistory fc) < 2 \<and>
    0 \<le> rand_seq (chain fc) (rand_pos (chain fc)) \<and>
    rand_seq (chain fc) (rand_pos (chain fc)) < 1"
  let ?u = "rand_seq (chain fc) (rand_pos (chain fc))"
  let ?n = "length (matchedInputs fc)"
  let ?i = "nat \<lfloor>?u ^ 2 * real (?n - 1)\<rfloor>"
  let ?fc' = "fc\<lparr>chain := (chain fc)\<lparr>rand_pos := rand_pos (chain fc) + 1\<rparr>\<rparr>"
  from a have n: "0 < ?n" and h: "length (responseHistory fc) < 2"
    and u: "0 \<le> ?u" "?u < 1"
    by simp_all
  define k where "k = \<lfloor>?u ^ 2 * real (?n - 1)\<rfloor>"
  note gi = go_int_index [OF u n]
  have g: "go_int (?u ^ 2 * real_of_int (int ?n - 1)) = k"
    unfolding k_def using gi by blast
  have idx: "0 \<le> k" "k < int ?n"
    using gi [unfolded g] by blast+
  have gate: "shouldUseMatchedInput fc = (True, fc)"
    using n h by (simp add: shouldUseMatchedInput_def)
  have "getWeightedIndex fc (int ?n) = (go_int (?u ^ 2 * real_of_int (int ?n - 1)), ?fc')"
    using n by (simp add: getWeightedIndex_def Float64_def Let_def)
  then have w: "getWeightedIndex fc (int ?n) = (k, ?fc')"
    by (simp only: g)
  have sel: "selectFromMatchedInputs fc = Inr (matchedInputs fc ! nat k, ?fc')"
    using n idx by (simp add: selectFromMatchedInputs_def w)
  have i: "nat k < ?n"
    using idx by simp
  have "GetNextInput fc base =
            Inr (if matchedInputs fc ! nat k = None then base else matchedInputs fc ! nat k, True, ?fc')"
    using n by (simp add: GetNextInput_def gate selectAndModifyInput_def sel)
  with i show "let u2 = ?u; i = nat \<lfloor>u2 ^ 2 * real (?n - 1)\<rfloor>; selected = matchedInputs fc ! i
       in i < ?n \<and>
          GetNextInput fc base = Inr (if selected = None then base else selected, True, ?fc')"
    unfolding k_def Let_def by blast
qed

theorem GetNextInput_gate_witness:
  "matchedInputs (UpdateWithMatchedInput (NewFeedbackController seed_half) (Some ''test'')) \<noteq> [] \<and>
   length (responseHistory (UpdateWithMatchedInput (NewFeedbackController seed_half) (Some ''test''))) < 2 \<and>
   (\<exists>fc'. GetNextInput (UpdateWithMatchedInput (NewFeedbackController seed_half) (Some ''test''))
           (Some ''default'') = Inr (Some ''test'', True, fc')) \<and>
   GetNextInput (NewFeedbackController seed_half) (Some ''default'') =
     Inr (None, False, NewFeedbackController seed_half)"
proof -
  let ?fc = "UpdateWithMatchedInput (NewFeedbackController seed_half) (Some ''test'')"
  have m: "matchedInputs ?fc = [Some ''test'']"
    and h: "responseHistory ?fc = []"
    and r: "rand_seq (chain ?fc) (rand_pos (chain ?fc)) = 1 / 2"
    by (simp_all add: UpdateWithMatchedInput_def NewFeedbackController_def newMarkovChain_def
        seed_half_def)
  have e: "matchedInputs (NewFeedbackController seed_half :: string FeedbackController) = []"
    by (simp add: NewFeedbackController_def)
  have "\<exists>fc'. GetNextInput ?fc (Some ''default'') = Inr (Some ''test'', True, fc')"
    using GetNextInput_gate [of ?fc "Some ''default''"]
    by (simp add: m h r Let_def)
  moreover have "GetNextInput (NewFeedbackController seed_half) (Some ''default'') =
     Inr (None, False, NewFeedbackController seed_half)"
    using GetNextInput_gate [of "NewFeedbackController seed_half" "Some ''default''"] e
    by blast
  ultimately show ?thesis
    by (simp add: m h)
qed

subsection \<open>The from-state of an update\<close>

lemma chain_run_fc_no_states:
  "inserted_states ops = [] \<Longrightarrow> chain (run_fc seed ops) = newMarkovChain seed"
proof (induction ops rule: rev_induct)
  case Nil
  show ?case by (simp add: run_fc_def NewFeedbackController_def)
next
  case (snoc op ops)
  then show ?case
    by (cases op) (simp_all add: inserted_states_append run_fc_snoc UpdateWithMatchedInput_fields)
qed

lemma last_n_Nil_iff: "0 < n \<Longrightarrow> (last_n n xs = []) = (xs = [])"
  by (cases xs) (auto simp: last_n_def)

lemma last_last_n: "0 < n \<Longrightarrow> xs \<noteq> [] \<Longrightarrow> last (last_n n xs) = last xs"
  by (simp add: last_n_def last_drop)

lemma QTable_UpdateTransition_None:
  "(QTable (UpdateTransition mc tr) k = None) = (k \<noteq> Hash (FromState tr) \<and> QTable mc k = None)"
  by (auto simp: UpdateTransition_def Let_def split: option.splits)

lemma mipUpdateWithResponse_fields:
  "mipChain (mipUpdateWithResponse mip inputs r) =
     UpdateTransition (mipChain mip)
       \<lparr>FromState = baselineState mip,
        Action = (case inputs ''FUZZ'' of None \<Rightarrow> [] | Some v \<Rightarrow> v),
        ToState = GetStateFromResponseFromResponseStruct r (depth mip),
        Reward = CalculateRewardFromResponseStruct r (baselineState mip) (baselineSizeHash mip)\<rparr>"
  "baselineState (mipUpdateWithResponse mip inputs r) = baselineState mip"
  by (simp_all add: mipUpdateWithResponse_def AddTransition_def Let_def)

lemma run_mip_snoc:
  "run_mip b h d (rs @ [(inputs, r)]) = mipUpdateWithResponse (run_mip b h d rs) inputs r"
  by (simp add: run_mip_def)

lemma run_mip_only_baseline:
  "baselineState (run_mip b h d rs) = b \<and>
   (\<forall>k. QTable (mipChain (run_mip b h d rs)) k \<noteq> None \<longrightarrow> k = Hash b)"
proof (induction rs rule: rev_induct)
  case Nil
  show ?case by (simp add: run_mip_def NewMarkovInputProvider_def NewMarkovChain_def)
next
  case (snoc p rs)
  obtain inputs r where p: "p = (inputs, r)" by (cases p)
  from snoc show ?case
    by (simp add: p run_mip_snoc mipUpdateWithResponse_fields QTable_UpdateTransition_None)
qed

text \<open>
  Claim C2, as the code has it.  In the feedback controller (reached from
  \<^verbatim>\<open>NewFeedbackController()\<close> by any recording calls), \<^verbatim>\<open>UpdateWithResponse\<close> updates the chain
  with a transition from the most recent entry of the response history, which is also the
  last state of the chain's own history, whenever the history is non-empty.  When the history
  is empty there is no transition update: the chain only takes the new state as its current
  state and as the first entry of its history, and its tables stay empty.  The controller has
  no baseline state.  In the input provider, \<^verbatim>\<open>UpdateWithResponse\<close> always updates from the
  baseline state, so that only the baseline state ever has Q-values.
\<close>

theorem from_state_of_update:
  "(responseHistory (run_fc seed ops) \<noteq> [] \<longrightarrow>
      History (chain (run_fc seed ops)) \<noteq> [] \<and>
      last (History (chain (run_fc seed ops))) = last (responseHistory (run_fc seed ops)) \<and>
      chain (UpdateWithResponse (run_fc seed ops) resp m) =
        (mUpdateTransition (chain (run_fc seed ops)) (last (responseHistory (run_fc seed ops)))
           (state_of resp m))
        \<lparr>CurrentState := state_of resp m,
         History := History (chain (run_fc seed ops)) @ [state_of resp m]\<rparr>) \<and>
   (responseHistory (run_fc seed ops) = [] \<longrightarrow>
      chain (UpdateWithResponse (run_fc seed ops) resp m) =
        (newMarkovChain seed)\<lparr>CurrentState := state_of resp m, History := [state_of resp m]\<rparr> \<and>
      (\<forall>k. Transitions (chain (UpdateWithResponse (run_fc seed ops) resp m)) k = None \<and>
           mStateCounts (chain (UpdateWithResponse (run_fc seed ops) resp m)) k = None)) \<and>
   mipChain (mipUpdateWithResponse mip inputs r) =
     UpdateTransition (mipChain mip)
       \<lparr>FromState = baselineState mip,
        Action = (case inputs ''FUZZ'' of None \<Rightarrow> [] | Some v \<Rightarrow> v),
        ToState = GetStateFromResponseFromResponseStruct r (depth mip),
        Reward = CalculateRewardFromResponseStruct r (baselineState mip) (baselineSizeHash mip)\<rparr> \<and>
   (\<forall>k. QTable (mipChain (run_mip b h d rs)) k \<noteq> None \<longrightarrow> k = Hash b)"
proof -
  let ?fc = "run_fc seed ops"
  have b: "responseHistory ?fc = last_n 100 (inserted_states ops)"
    "History (chain ?fc) = inserted_states ops"
    using run_fc_buffers [of seed ops] by simp_all
  have c: "chain (UpdateWithResponse ?fc resp m) = UpdateChain (chain ?fc) (state_of resp m)"
    by (rule UpdateWithResponse_fields)
  have 1: "History (chain ?fc) \<noteq> [] \<and>
      last (History (chain ?fc)) = last (responseHistory ?fc) \<and>
      chain (UpdateWithResponse ?fc resp m) =
        (mUpdateTransition (chain ?fc) (last (responseHistory ?fc)) (state_of resp m))
        \<lparr>CurrentState := state_of resp m, History := History (chain ?fc) @ [state_of resp m]\<rparr>"
    if ne: "responseHistory ?fc \<noteq> []"
  proof -
    from ne have n: "inserted_states ops \<noteq> []"
      by (simp add: b last_n_Nil_iff)
    then have l: "last (History (chain ?fc)) = last (responseHistory ?fc)"
      by (simp add: b last_last_n)
    show ?thesis
      using n l by (simp add: c UpdateChain_def Let_def b(2) History_mUpdateTransition)
  qed
  have 2: "chain (UpdateWithResponse ?fc resp m) =
        (newMarkovChain seed)\<lparr>CurrentState := state_of resp m, History := [state_of resp m]\<rparr> \<and>
      (\<forall>k. Transitions (chain (UpdateWithResponse ?fc resp m)) k = None \<and>
           mStateCounts (chain (UpdateWithResponse ?fc resp m)) k = None)"
    if e: "responseHistory ?fc = []"
  proof -
    from e have n: "inserted_states ops = []"
      by (simp add: b last_n_Nil_iff)
    then have "chain ?fc = newMarkovChain seed"
      by (rule chain_run_fc_no_states)
    then show ?thesis
      by (simp add: c UpdateChain_def Let_def) (simp add: newMarkovChain_def)
  qed
  show ?thesis
    using 1 2 mipUpdateWithResponse_fields(1) [of mip inputs r] run_mip_only_baseline [of b h d rs]
    by blast
qed

lemma keys_UpdateTransition:
  "map fst (row_list (QTable (UpdateTransition mc tr)) k) =
     (if k = Hash (FromState tr)
      then (if Action tr \<in> set (map fst (row_list (QTable mc) k)) then map fst (row_list (QTable mc) k)
            else map fst (row_list (QTable mc) k) @ [Action tr])
      else map fst (row_list (QTable mc) k))"
proof -
  obtain newQ where r: "row_list (QTable (UpdateTransition mc tr)) k =
     (if k = Hash (FromState tr) then AList.update (Action tr) newQ (row_list (QTable mc) k)
      else row_list (QTable mc) k)"
    using row_UpdateTransition [of mc tr k] by blast
  show ?thesis
    unfolding r by (simp add: update_keys)
qed

lemma Hash_response0_200:
  "Hash (GetStateFromResponseFromResponseStruct (response0 200 139) 1) = ''2xx_100_1''"
  by (simp add: response0_def Hash_def GetStateFromResponseFromResponseStruct_def quantizeSize_def
      QuantizeSize_def fmt_d_def fmt_nat.simps digit_char_def)

lemma row_list_New: "row_list (QTable NewMarkovChain) k = []"
  by (simp add: NewMarkovChain_def row_list_def)

lemma fuzz_FUZZ: "fuzz w ''FUZZ'' = Some w"
  by (simp add: fuzz_def)

lemma provider2_tables:
  "map fst (row_list (QTable (mipChain provider2)) (Hash baseline0)) = [''admin'', ''login'']"
  "QTable (mipChain provider2) ''2xx_100_1'' = None"
proof -
  define mip0 where "mip0 = NewMarkovInputProvider baseline0 ''0'' 1"
  define mip1 where "mip1 = mipUpdateWithResponse mip0 (fuzz ''admin'') (response0 200 139)"
  have p: "provider2 = mipUpdateWithResponse mip1 (fuzz ''login'') (response0 404 139)"
    by (simp add: provider2_def run_mip_def mip1_def mip0_def)
  have b0: "baselineState mip0 = baseline0" and c0: "mipChain mip0 = NewMarkovChain"
    by (simp_all add: NewMarkovInputProvider_def mip0_def)
  have b1: "baselineState mip1 = baseline0"
    by (simp add: mip1_def mipUpdateWithResponse_fields(2) b0)
  have k1: "map fst (row_list (QTable (mipChain mip1)) (Hash baseline0)) = [''admin'']"
    by (simp add: mip1_def mipUpdateWithResponse_fields(1) keys_UpdateTransition b0 c0 row_list_New
        fuzz_FUZZ)
  show "map fst (row_list (QTable (mipChain provider2)) (Hash baseline0)) = [''admin'', ''login'']"
    by (simp add: p mipUpdateWithResponse_fields(1) keys_UpdateTransition b1 k1 fuzz_FUZZ)
  have n0: "QTable NewMarkovChain k = None" for k
    by (simp add: NewMarkovChain_def)
  have "QTable (mipChain mip1) ''2xx_100_1'' = None"
    by (simp add: mip1_def mipUpdateWithResponse_fields(1) QTable_UpdateTransition_None b0 c0
        Hash_baseline0 n0)
  then show "QTable (mipChain provider2) ''2xx_100_1'' = None"
    by (simp add: p mipUpdateWithResponse_fields(1) QTable_UpdateTransition_None b1 Hash_baseline0)
qed

lemma controller1_fields:
  "responseHistory controller1 = [state_of fresponse0 True]"
  "chain controller1 = (newMarkovChain seed0)\<lparr>CurrentState := state_of fresponse0 True,
                                               History := [state_of fresponse0 True]\<rparr>"
  by (simp_all add: controller1_def run_fc_def UpdateWithResponse_fields NewFeedbackController_def
      UpdateChain_def newMarkovChain_def)

theorem from_state_of_update_witness:
  "responseHistory controller1 \<noteq> [] \<and>
   last (responseHistory controller1) = state_of fresponse0 True \<and>
   chain (UpdateWithResponse controller1 fresponse0 False) =
     (mUpdateTransition (chain controller1) (state_of fresponse0 True) (state_of fresponse0 False))
     \<lparr>CurrentState := state_of fresponse0 False,
      History := [state_of fresponse0 True, state_of fresponse0 False]\<rparr> \<and>
   responseHistory (run_fc seed0 [OpMatchedInput (Some ''test'')]) = [] \<and>
   chain (UpdateWithResponse (run_fc seed0 [OpMatchedInput (Some ''test'')]) fresponse0 True) =
     (newMarkovChain seed0)\<lparr>CurrentState := state_of fresponse0 True,
                             History := [state_of fresponse0 True]\<rparr> \<and>
   QTable (mipChain provider2) (Hash baseline0) \<noteq> None"
proof -
  have ne: "responseHistory controller1 \<noteq> []" and l: "last (responseHistory controller1) = state_of fresponse0 True"
    and h: "History (chain controller1) = [state_of fresponse0 True]"
    by (simp_all add: controller1_fields)
  have a: "chain (UpdateWithResponse controller1 fresponse0 False) =
     (mUpdateTransition (chain controller1) (state_of fresponse0 True) (state_of fresponse0 False))
     \<lparr>CurrentState := state_of fresponse0 False,
      History := [state_of fresponse0 True, state_of fresponse0 False]\<rparr>"
    using from_state_of_update [of seed0 "[OpResponse fresponse0 True] :: string fc_op list"
        fresponse0 False, THEN conjunct1]
      ne l h unfolding controller1_def by simp
  have e: "responseHistory (run_fc seed0 [OpMatchedInput (Some ''test'')]) = []"
    by (simp add: run_fc_def UpdateWithMatchedInput_fields NewFeedbackController_def)
  have b: "chain (UpdateWithResponse (run_fc seed0 [OpMatchedInput (Some ''test'')]) fresponse0 True) =
     (newMarkovChain seed0)\<lparr>CurrentState := state_of fresponse0 True,
                             History := [state_of fresponse0 True]\<rparr>"
    using from_state_of_update [of seed0 "[OpMatchedInput (Some ''test'')]" fresponse0 True,
        THEN conjunct2, THEN conjunct1] e
    by blast
  have q: "QTable (mipChain provider2) (Hash baseline0) \<noteq> None"
    using provider2_tables(1) by (auto simp: row_list_def split: option.splits)
  from ne l a e b q show ?thesis by blast
qed

text \<open>
  Claim C2 has the very first recorded response produce a transition update from the
  baseline state, and every later one an update from the most recent history entry.  A new
  controller has an empty history; after its first response the tables of the chain are
  still those of a new chain.  In the input provider, after a 200 response (state key
  \<open>2xx_100_1\<close>) and then a 404 response, the state of the 200 response has no row in the
  Q-table, while the baseline's row holds both actions: the second update started from the
  baseline, not from the most recent state.
\<close>

theorem from_state_of_update_counterexample:
  "responseHistory (NewFeedbackController seed0 :: string FeedbackController) = [] \<and>
   Transitions (chain (UpdateWithResponse (NewFeedbackController seed0 :: string FeedbackController) fresponse0 True))
     = Transitions (newMarkovChain seed0) \<and>
   mStateCounts (chain (UpdateWithResponse (NewFeedbackController seed0 :: string FeedbackController) fresponse0 True))
     = mStateCounts (newMarkovChain seed0) \<and>
   Hash (GetStateFromResponseFromResponseStruct (response0 200 139) 1) = ''2xx_100_1'' \<and>
   QTable (mipChain provider2) ''2xx_100_1'' = None \<and>
   map fst (row_list (QTable (mipChain provider2)) (Hash baseline0)) = [''admin'', ''login'']"
proof -
  have "responseHistory (NewFeedbackController seed0 :: string FeedbackController) = []"
    by (simp add: NewFeedbackController_def)
  moreover have "chain (UpdateWithResponse (NewFeedbackController seed0 :: string FeedbackController) fresponse0 True)
     = (newMarkovChain seed0)\<lparr>CurrentState := state_of fresponse0 True,
                             History := [state_of fresponse0 True]\<rparr>"
    by (simp add: UpdateWithResponse_fields NewFeedbackController_def UpdateChain_def newMarkovChain_def)
  ultimately show ?thesis
    using Hash_response0_200 provider2_tables by simp
qed

subsection \<open>The analysis rollup\<close>

lemma status_counts_snoc:
  "status_counts (h @ [s]) = incr_list (status_counts h) (mStatusCode s)"
  by (simp add: status_counts_def)

lemma code_count_snoc:
  "code_count (h @ [s]) c = code_count h c + (if mStatusCode s = c then 1 else 0)"
  by (simp add: code_count_def)

lemma status_counts_sem:
  "distinct (map fst (status_counts h)) \<and>
   (\<forall>c. map_of (status_counts h) c = (if code_count h c = 0 then None else Some (code_count h c)))"
proof (induction h rule: rev_induct)
  case Nil
  show ?case by (simp add: status_counts_def code_count_def)
next
  case (snoc s h)
  then show ?case
    by (auto simp: status_counts_snoc code_count_snoc map_of_incr_list distinct_incr_list)
qed

lemma code_count_pos: "(0 < code_count h c) = (c \<in> mStatusCode ` set h)"
  by (auto simp: code_count_def filter_empty_conv length_greater_0_conv [symmetric]
      simp del: length_greater_0_conv)

lemma in_status_counts:
  "((c, k) \<in> set (status_counts h)) = (k = code_count h c \<and> 0 < k)"
proof -
  have d: "distinct (map fst (status_counts h))"
    and m: "map_of (status_counts h) c = (if code_count h c = 0 then None else Some (code_count h c))"
    using status_counts_sem [of h] by simp_all
  have "((c, k) \<in> set (status_counts h)) = (map_of (status_counts h) c = Some k)"
    using d by simp
  then show ?thesis
    by (auto simp: m)
qed

lemma keys_status_counts: "fst ` set (status_counts h) = mStatusCode ` set h"
proof -
  have "fst ` set (status_counts h) = {c. 0 < code_count h c}"
  proof (intro set_eqI iffI)
    fix c assume "c \<in> fst ` set (status_counts h)"
    then show "c \<in> {c. 0 < code_count h c}"
      by (auto simp: in_status_counts)
  next
    fix c assume "c \<in> {c. 0 < code_count h c}"
    then have "(c, code_count h c) \<in> set (status_counts h)"
      by (simp add: in_status_counts)
    then show "c \<in> fst ` set (status_counts h)"
      by (rule rev_image_eqI) simp
  qed
  then show ?thesis
    by (auto simp: code_count_pos)
qed

lemma length_status_counts: "length (status_counts h) = card (mStatusCode ` set h)"
proof -
  have "length (status_counts h) = length (map fst (status_counts h))"
    by simp
  also have "\<dots> = card (set (map fst (status_counts h)))"
    using status_counts_sem [of h] by (simp only: distinct_card)
  finally show ?thesis
    by (simp add: keys_status_counts)
qed

lemma matchCount_fold:
  "foldl (\<lambda>c state. if IsMatch state then c + 1 else c) (0::nat) h = length (filter IsMatch h)"
  by (induction h rule: rev_induct) simp_all

lemma top_codes_props:
  fixes iteration :: "(int \<times> nat) list" and h :: "mState list"
  assumes it: "mset iteration = mset (status_counts h)"
  defines "tops \<equiv> take (min 5 (length (sort_slice iteration))) (sort_slice iteration)"
  shows "length tops = min 5 (card (mStatusCode ` set h))"
    and "distinct (map fst tops)"
    and "\<forall>(c, k) \<in> set tops. k = code_count h c \<and> 0 < k"
    and "sorted_wrt (\<lambda>x y. snd x \<ge> snd y) tops"
    and "\<forall>c \<in> mStatusCode ` set h. c \<notin> fst ` set tops \<longrightarrow>
           (\<forall>(c', k') \<in> set tops. code_count h c \<le> k')"
proof -
  let ?s = "sort_slice iteration"
  have ms: "mset ?s = mset (status_counts h)"
    by (simp add: mset_sort_slice it)
  have len: "length ?s = card (mStatusCode ` set h)"
    using ms length_status_counts [of h] by (metis size_mset)
  have sets: "set ?s = set (status_counts h)"
    using ms by (rule mset_eq_setD)
  have "mset (map fst ?s) = mset (map fst (status_counts h))"
    using arg_cong [OF ms, of "image_mset fst"] by simp
  then have d: "distinct (map fst ?s)"
    using status_counts_sem [of h] mset_eq_imp_distinct_iff by blast
  have srt: "sorted_wrt (\<lambda>x y. snd x \<ge> snd y) ?s"
    by (rule sorted_sort_slice)
  have top5: "tops = take 5 ?s"
    by (simp add: tops_def min_def)
  show "length tops = min 5 (card (mStatusCode ` set h))"
    by (simp add: top5 len min.commute)
  show "distinct (map fst tops)"
    unfolding top5 take_map [symmetric] using d by (rule distinct_take)
  have sub: "set tops \<subseteq> set (status_counts h)"
    using set_take_subset [of 5 ?s] by (simp add: top5 sets)
  show "\<forall>(c, k) \<in> set tops. k = code_count h c \<and> 0 < k"
    using sub by (auto simp: in_status_counts)
  show "sorted_wrt (\<lambda>x y. snd x \<ge> snd y) tops"
    unfolding top5 using srt by (rule sorted_wrt_take)
  show "\<forall>c \<in> mStatusCode ` set h. c \<notin> fst ` set tops \<longrightarrow>
           (\<forall>(c', k') \<in> set tops. code_count h c \<le> k')"
  proof (intro ballI impI)
    fix c p assume c: "c \<in> mStatusCode ` set h" and nt: "c \<notin> fst ` set tops" and p: "p \<in> set tops"
    have "(c, code_count h c) \<in> set ?s"
      using c by (simp add: sets in_status_counts code_count_pos)
    then have "(c, code_count h c) \<in> set (take 5 ?s) \<union> set (drop 5 ?s)"
      by (simp only: set_append [symmetric] append_take_drop_id)
    moreover have "(c, code_count h c) \<notin> set (take 5 ?s)"
      using nt by (auto simp: top5 image_iff)
    ultimately have dr: "(c, code_count h c) \<in> set (drop 5 ?s)"
      by blast
    have "sorted_wrt (\<lambda>x y. snd x \<ge> snd y) (take 5 ?s @ drop 5 ?s)"
      using srt by simp
    then have "\<forall>x \<in> set (take 5 ?s). \<forall>y \<in> set (drop 5 ?s). snd x \<ge> snd y"
      by (simp only: sorted_wrt_append) blast
    then have "snd p \<ge> snd (c, code_count h c)"
      using p dr unfolding top5 by blast
    then have "snd p \<ge> code_count h c"
      by simp
    then show "case p of (c', k') \<Rightarrow> code_count h c \<le> k'"
      by (cases p) simp
  qed
qed

text \<open>
  Claim C4, as the code has it.  On an empty history \<^verbatim>\<open>AnalyzeResponsePatterns\<close> returns the
  empty rollup.  On a non-empty history, and for any order in which the iteration over the
  status-code counts may run, it returns a rollup in which \<open>total_responses\<close> is the length of
  the history, \<open>total_matches\<close> the number of entries whose match flag is true and
  \<open>match_rate\<close> their quotient; the list \<open>top_status_codes\<close> holds \<open>min 5 d\<close> entries, where
  \<open>d\<close> is the number of distinct status codes, each a distinct code with its frequency, in
  descending order of frequency, and no code left out is more frequent than a code listed.
  The order among codes of equal frequency is the one the iteration and the sort leave.
  Every other field of the rollup is the same for all iteration orders.
\<close>

theorem AnalyzeResponsePatterns_rollup:
  "(responseHistory fc = [] \<longrightarrow> AnalyzeResponsePatterns fc iteration = None) \<and>
   (responseHistory fc \<noteq> [] \<and> code_iteration_of fc iteration \<longrightarrow>
      (\<exists>r. AnalyzeResponsePatterns fc iteration = Some r \<and>
           total_responses r = length (responseHistory fc) \<and>
           total_matches r = length (filter IsMatch (responseHistory fc)) \<and>
           match_rate r = real (total_matches r) / real (total_responses r) \<and>
           length (top_status_codes r) = min 5 (card (mStatusCode ` set (responseHistory fc))) \<and>
           distinct (map fst (top_status_codes r)) \<and>
           (\<forall>(c, k) \<in> set (top_status_codes r). k = code_count (responseHistory fc) c \<and> 0 < k) \<and>
           sorted_wrt (\<lambda>x y. snd x \<ge> snd y) (top_status_codes r) \<and>
           (\<forall>c \<in> mStatusCode ` set (responseHistory fc). c \<notin> fst ` set (top_status_codes r) \<longrightarrow>
               (\<forall>(c', k') \<in> set (top_status_codes r). code_count (responseHistory fc) c \<le> k')))) \<and>
   map_option (\<lambda>r. r\<lparr>top_status_codes := []\<rparr>) (AnalyzeResponsePatterns fc iteration') =
   map_option (\<lambda>r. r\<lparr>top_status_codes := []\<rparr>) (AnalyzeResponsePatterns fc iteration)"
proof (intro conjI impI)
  show "AnalyzeResponsePatterns fc iteration = None" if "responseHistory fc = []"
    using that by (simp add: AnalyzeResponsePatterns_def)
  show "map_option (\<lambda>r. r\<lparr>top_status_codes := []\<rparr>) (AnalyzeResponsePatterns fc iteration') =
   map_option (\<lambda>r. r\<lparr>top_status_codes := []\<rparr>) (AnalyzeResponsePatterns fc iteration)"
    by (simp add: AnalyzeResponsePatterns_def Let_def)
next
  assume a: "responseHistory fc \<noteq> [] \<and> code_iteration_of fc iteration"
  let ?h = "responseHistory fc"
  let ?tops = "take (min 5 (length (sort_slice iteration))) (sort_slice iteration)"
  from a have ne: "?h \<noteq> []" and it: "mset iteration = mset (status_counts ?h)"
    by (simp_all add: code_iteration_of_def)
  obtain r where r: "AnalyzeResponsePatterns fc iteration = Some r"
    and f: "total_responses r = length ?h" "total_matches r = length (filter IsMatch ?h)"
      "match_rate r = real (length (filter IsMatch ?h)) / real (length ?h)"
      "top_status_codes r = ?tops"
    using ne by (simp add: AnalyzeResponsePatterns_def Let_def matchCount_fold)
  note t = top_codes_props [OF it]
  show "\<exists>r. AnalyzeResponsePatterns fc iteration = Some r \<and>
           total_responses r = length ?h \<and>
           total_matches r = length (filter IsMatch ?h) \<and>
           match_rate r = real (total_matches r) / real (total_responses r) \<and>
           length (top_status_codes r) = min 5 (card (mStatusCode ` set ?h)) \<and>
           distinct (map fst (top_status_codes r)) \<and>
           (\<forall>(c, k) \<in> set (top_status_codes r). k = code_count ?h c \<and> 0 < k) \<and>
           sorted_wrt (\<lambda>x y. snd x \<ge> snd y) (top_status_codes r) \<and>
           (\<forall>c \<in> mStatusCode ` set ?h. c \<notin> fst ` set (top_status_codes r) \<longrightarrow>
               (\<forall>(c', k') \<in> set (top_status_codes r). code_count ?h c \<le> k'))"
    apply (rule exI [of _ r])
    unfolding f
    using r t by blast
qed

lemma history_controller5:
  "responseHistory controller5 =
     [state_of (test_response 0) True, state_of (test_response 1) False,
      state_of (test_response 2) True, state_of (test_response 3) False,
      state_of (test_response 4) True]"
  using run_fc_buffers [of seed0 "[OpResponse (test_response 0) True, OpResponse (test_response 1) False,
      OpResponse (test_response 2) True, OpResponse (test_response 3) False,
      OpResponse (test_response 4) True] :: string fc_op list"]
  by (simp add: controller5_def last_n_def)

lemma history_controller2:
  "responseHistory controller2 =
     [state_of fresponse0 True, state_of (fresponse0\<lparr>rStatusCode := 404\<rparr>) False]"
  using run_fc_buffers [of seed0 "[OpResponse fresponse0 True,
      OpResponse (fresponse0\<lparr>rStatusCode := 404\<rparr>) False] :: string fc_op list"]
  by (simp add: controller2_def last_n_def)

lemma counts_controller5: "status_counts (responseHistory controller5) = [(200, 3), (400, 2)]"
  by (simp add: history_controller5 status_counts_def incr_list_def state_of_def test_response_def)

lemma counts_controller2: "status_counts (responseHistory controller2) = [(200, 1), (404, 1)]"
  by (simp add: history_controller2 status_counts_def incr_list_def state_of_def fresponse0_def)

lemma top_controller2:
  "map_option top_status_codes (AnalyzeResponsePatterns controller2 [(404, 1), (200, 1)])
     = Some [(404, 1), (200, 1)]"
  "map_option top_status_codes (AnalyzeResponsePatterns controller2 [(200, 1), (404, 1)])
     = Some [(200, 1), (404, 1)]"
  by (simp_all add: AnalyzeResponsePatterns_def Let_def history_controller2 sort_slice_def)

lemma top_controller5:
  "map_option top_status_codes (AnalyzeResponsePatterns controller5 [(400, 2), (200, 3)])
     = Some [(200, 3), (400, 2)]"
  by (simp add: AnalyzeResponsePatterns_def Let_def history_controller5 sort_slice_def)

theorem AnalyzeResponsePatterns_rollup_witness:
  "map IsMatch (responseHistory controller5) = [True, False, True, False, True] \<and>
   code_iteration_of controller5 [(400, 2), (200, 3)] \<and>
   map_option total_responses (AnalyzeResponsePatterns controller5 [(400, 2), (200, 3)]) = Some 5 \<and>
   map_option total_matches (AnalyzeResponsePatterns controller5 [(400, 2), (200, 3)]) = Some 3 \<and>
   map_option match_rate (AnalyzeResponsePatterns controller5 [(400, 2), (200, 3)]) = Some (6 / 10) \<and>
   map_option top_status_codes (AnalyzeResponsePatterns controller5 [(400, 2), (200, 3)])
     = Some [(200, 3), (400, 2)] \<and>
   AnalyzeResponsePatterns (NewFeedbackController seed0 :: string FeedbackController) [] = None"
proof -
  have m: "map IsMatch (responseHistory controller5) = [True, False, True, False, True]"
    by (simp add: history_controller5 state_of_def)
  have ne: "responseHistory controller5 \<noteq> []"
    by (simp add: history_controller5)
  have it: "code_iteration_of controller5 [(400, 2), (200, 3)]"
    by (simp add: code_iteration_of_def counts_controller5)
  have l: "length (responseHistory controller5) = 5"
    and f: "length (filter IsMatch (responseHistory controller5)) = 3"
    by (simp_all add: history_controller5 state_of_def)
  obtain r where r: "AnalyzeResponsePatterns controller5 [(400, 2), (200, 3)] = Some r"
    and t: "total_responses r = length (responseHistory controller5)"
      "total_matches r = length (filter IsMatch (responseHistory controller5))"
      "match_rate r = real (total_matches r) / real (total_responses r)"
    using AnalyzeResponsePatterns_rollup [of controller5 "[(400, 2), (200, 3)]", THEN conjunct2, THEN conjunct1]
      ne it by blast
  have e: "AnalyzeResponsePatterns (NewFeedbackController seed0 :: string FeedbackController) [] = None"
    using AnalyzeResponsePatterns_rollup [of "NewFeedbackController seed0 :: string FeedbackController" "[]",
        THEN conjunct1]
    by (simp add: NewFeedbackController_def)
  from m it e top_controller5 show ?thesis
    by (simp add: r t l f)
qed

text \<open>
  Claim C4 breaks ties by first-observed order and makes the rollup a function of the
  history.  \<open>controller2\<close> has seen status 200 and then status 404, once each.  When the
  iteration over the counts yields 404 first, the list is 404, 200; when it yields 200 first,
  the list is 200, 404.  The code has no tie-break, and the two calls on the same history
  differ.
\<close>

theorem AnalyzeResponsePatterns_rollup_counterexample:
  "map mStatusCode (responseHistory controller2) = [200, 404] \<and>
   code_iteration_of controller2 [(404, 1), (200, 1)] \<and>
   map_option top_status_codes (AnalyzeResponsePatterns controller2 [(404, 1), (200, 1)])
     = Some [(404, 1), (200, 1)] \<and>
   code_iteration_of controller2 [(200, 1), (404, 1)] \<and>
   map_option top_status_codes (AnalyzeResponsePatterns controller2 [(200, 1), (404, 1)])
     = Some [(200, 1), (404, 1)]"
proof -
  have "map mStatusCode (responseHistory controller2) = [200, 404]"
    by (simp add: history_controller2 state_of_def fresponse0_def)
  moreover have "code_iteration_of controller2 [(404, 1), (200, 1)]"
    "code_iteration_of controller2 [(200, 1), (404, 1)]"
    by (simp_all add: code_iteration_of_def counts_controller2)
  ultimately show ?thesis
    using top_controller2 by blast
qed

end
